theory Spec2Isabelle
  imports Complex_Main "HOL-Library.Char_ord" "HOL-Library.List_Lexorder"
    "HOL-Library.Product_Lexorder"
begin

section \<open>Data frames\<close>

text \<open>
  The dashboard's pipeline (\<^verbatim>\<open>geia_streamlit_app.py\<close>) works on pandas data frames.
  A cell is missing (NaN, NaT, None), a number, a text or a timestamp. Numbers are exact
  rationals here: the rounding of binary floating point is not part of this development.
  Text is a list of bytes (UTF-8). A frame is its list of column labels and its rows, each
  row holding one cell per column, in the order of the labels.
\<close>

datatype cell = Missing | Num rat | Str string | Stamp int

datatype error = ValueError string | KeyError string | TypeError string

record table =
  columns :: "string list"
  rows :: "cell list list"

text \<open>The frames that \<^verbatim>\<open>read_csv\<close> builds have distinct labels and full rows.\<close>

definition wf_table :: "table \<Rightarrow> bool" where
  "wf_table t \<longleftrightarrow>
     distinct (columns t) \<and> (\<forall>r \<in> set (rows t). length r = length (columns t))"

text \<open>\<^verbatim>\<open>pd.DataFrame()\<close>: no column, no row.\<close>

definition empty_frame :: table where
  "empty_frame = \<lparr>columns = [], rows = []\<rparr>"

text \<open>\<^verbatim>\<open>df.empty\<close>: one of the two axes has length 0.\<close>

definition frame_empty :: "table \<Rightarrow> bool" where
  "frame_empty t \<longleftrightarrow> columns t = [] \<or> rows t = []"

fun index_of :: "'a \<Rightarrow> 'a list \<Rightarrow> nat" where
  "index_of x [] = 0"
| "index_of x (y # ys) = (if x = y then 0 else Suc (index_of x ys))"

text \<open>
  \<^verbatim>\<open>df[name]\<close> for a label that is present (every caller below tests the label first,
  or fails with a \<^verbatim>\<open>KeyError\<close> where the source does).
\<close>

definition get_col :: "string \<Rightarrow> table \<Rightarrow> cell list" where
  "get_col name t = map (\<lambda>r. r ! index_of name (columns t)) (rows t)"

text \<open>
  \<^verbatim>\<open>df[name] = values\<close>: an existing column is overwritten in place, a new one is
  appended as the last column.
\<close>

definition set_col :: "string \<Rightarrow> cell list \<Rightarrow> table \<Rightarrow> table" where
  "set_col name vs t =
     (if name \<in> set (columns t)
      then t\<lparr>rows := map (\<lambda>(r, v). r[index_of name (columns t) := v]) (zip (rows t) vs)\<rparr>
      else t\<lparr>columns := columns t @ [name],
             rows := map (\<lambda>(r, v). r @ [v]) (zip (rows t) vs)\<rparr>)"

section \<open>Text and numbers\<close>

text \<open>\<^verbatim>\<open>str.replace(old, new)\<close> with \<^verbatim>\<open>regex=False\<close>, for a non-empty \<open>old\<close>: every
  occurrence, left to right, without overlap.\<close>

function str_replace :: "string \<Rightarrow> string \<Rightarrow> string \<Rightarrow> string" where
  "str_replace old new [] = []"
| "str_replace old new (c # cs) =
     (if old \<noteq> [] \<and> take (length old) (c # cs) = old
      then new @ str_replace old new (drop (length old) (c # cs))
      else c # str_replace old new cs)"
  by pat_completeness auto
termination
  by (relation "measure (\<lambda>(old, new, s). length s)") auto

text \<open>
  The white space that Python's \<^verbatim>\<open>str.strip()\<close> removes. In ASCII it is the characters
  9 to 13 and 28 to 32; beyond ASCII it is U+0085, U+00A0, U+1680, U+2000 to U+200A,
  U+2028, U+2029, U+202F, U+205F and U+3000, here in their UTF-8 encodings.
\<close>

definition is_space :: "char \<Rightarrow> bool" where
  "is_space c \<longleftrightarrow> (of_char c :: nat) \<in> {9, 10, 11, 12, 13, 28, 29, 30, 31, 32}"

definition wide_spaces :: "string list" where
  "wide_spaces =
     [[CHR 0xC2, CHR 0x85], [CHR 0xC2, CHR 0xA0], [CHR 0xE1, CHR 0x9A, CHR 0x80],
      [CHR 0xE2, CHR 0x80, CHR 0x80], [CHR 0xE2, CHR 0x80, CHR 0x81],
      [CHR 0xE2, CHR 0x80, CHR 0x82], [CHR 0xE2, CHR 0x80, CHR 0x83],
      [CHR 0xE2, CHR 0x80, CHR 0x84], [CHR 0xE2, CHR 0x80, CHR 0x85],
      [CHR 0xE2, CHR 0x80, CHR 0x86], [CHR 0xE2, CHR 0x80, CHR 0x87],
      [CHR 0xE2, CHR 0x80, CHR 0x88], [CHR 0xE2, CHR 0x80, CHR 0x89],
      [CHR 0xE2, CHR 0x80, CHR 0x8A], [CHR 0xE2, CHR 0x80, CHR 0xA8],
      [CHR 0xE2, CHR 0x80, CHR 0xA9], [CHR 0xE2, CHR 0x80, CHR 0xAF],
      [CHR 0xE2, CHR 0x81, CHR 0x9F], [CHR 0xE3, CHR 0x80, CHR 0x80]]"

text \<open>
  White space removed from the front of a text. With \<open>back\<close> the text is a reversed
  one, and so are the encodings looked for: this is how the end of a text is stripped.
\<close>

fun strip_front :: "bool \<Rightarrow> string \<Rightarrow> string" where
  "strip_front back [] = []"
| "strip_front back (c # cs) =
     (if is_space c then strip_front back cs
      else if (if back then rev (take 2 (c # cs)) else take 2 (c # cs)) \<in> set wide_spaces
      then strip_front back (drop 1 cs)
      else if (if back then rev (take 3 (c # cs)) else take 3 (c # cs)) \<in> set wide_spaces
      then strip_front back (drop 2 cs)
      else c # cs)"

definition str_strip :: "string \<Rightarrow> string" where
  "str_strip s = rev (strip_front True (rev (strip_front False s)))"

text \<open>
  The blanks that \<^verbatim>\<open>pd.to_numeric\<close> skips before and after a number: space, tab, line
  feed, vertical tab, form feed and carriage return.
\<close>

definition is_blank :: "char \<Rightarrow> bool" where
  "is_blank c \<longleftrightarrow> (of_char c :: nat) \<in> {9, 10, 11, 12, 13, 32}"

definition skip_blanks :: "string \<Rightarrow> string" where
  "skip_blanks s = rev (dropWhile is_blank (rev (dropWhile is_blank s)))"

text \<open>\<^verbatim>\<open>sub in s\<close> on strings.\<close>

fun str_contains :: "string \<Rightarrow> string \<Rightarrow> bool" where
  "str_contains sub [] \<longleftrightarrow> sub = []"
| "str_contains sub (c # cs) \<longleftrightarrow> take (length sub) (c # cs) = sub \<or> str_contains sub cs"

definition is_digit :: "char \<Rightarrow> bool" where
  "is_digit c \<longleftrightarrow> 48 \<le> (of_char c :: nat) \<and> (of_char c :: nat) \<le> 57"

definition digit_val :: "char \<Rightarrow> nat" where
  "digit_val c = of_char c - 48"

definition digit_char :: "nat \<Rightarrow> char" where
  "digit_char n = char_of (48 + n)"

definition nat_of_digits :: "string \<Rightarrow> nat" where
  "nat_of_digits ds = foldl (\<lambda>a c. 10 * a + digit_val c) 0 ds"

definition to_lower :: "char \<Rightarrow> char" where
  "to_lower c =
     (if 65 \<le> (of_char c :: nat) \<and> (of_char c :: nat) \<le> 90
      then char_of ((of_char c :: nat) + 32) else c)"

text \<open>An optional sign in front of a text.\<close>

fun take_sign :: "string \<Rightarrow> bool \<times> string" where
  "take_sign [] = (False, [])"
| "take_sign (c # cs) =
     (if c = CHR ''-'' then (True, cs) else if c = CHR ''+'' then (False, cs)
      else (False, c # cs))"

text \<open>The exponent part of a literal: nothing, or \<^verbatim>\<open>e\<close>/\<^verbatim>\<open>E\<close>, a sign, digits.\<close>

definition parse_exponent :: "string \<Rightarrow> int option" where
  "parse_exponent s =
     (case s of
        [] \<Rightarrow> Some 0
      | c # cs \<Rightarrow>
          if c = CHR ''e'' \<or> c = CHR ''E''
          then (let (neg, ds) = take_sign cs
                in if ds \<noteq> [] \<and> (\<forall>d \<in> set ds. is_digit d)
                   then Some ((if neg then - 1 else 1) * int (nat_of_digits ds))
                   else None)
          else None)"

text \<open>The value \<open>m \<sqdot> 10\<^sup>e\<close>.\<close>

definition scale10 :: "int \<Rightarrow> int \<Rightarrow> rat" where
  "scale10 m e =
     (if 0 \<le> e then of_int m * 10 ^ nat e else of_int m / 10 ^ nat (- e))"

text \<open>
  What \<^verbatim>\<open>pd.to_numeric\<close> reads in a text. The empty text reads as the missing value.
  Otherwise blanks around the text are skipped, then come a sign, digits with an optional
  decimal point (one digit at least) and an optional exponent; or \<^verbatim>\<open>nan\<close> in any case,
  which reads as the missing value. Any other text is not a number (\<open>None\<close>). The
  infinities, which pandas also reads, have no counterpart among the cells and are left
  out.
\<close>

definition parse_number :: "string \<Rightarrow> cell option" where
  "parse_number s =
     (if s = [] then Some Missing
      else
        let t = skip_blanks s;
            (neg, u) = take_sign t
        in if map to_lower u = ''nan'' then Some Missing
           else
             let ip = takeWhile is_digit u;
                 r1 = dropWhile is_digit u;
                 fp = (case r1 of [] \<Rightarrow> [] | c # cs \<Rightarrow>
                         if c = CHR ''.'' then takeWhile is_digit cs else []);
                 r2 = (case r1 of [] \<Rightarrow> [] | c # cs \<Rightarrow>
                         if c = CHR ''.'' then dropWhile is_digit cs else r1)
             in if ip @ fp = [] then None
                else case parse_exponent r2 of
                       None \<Rightarrow> None
                     | Some e \<Rightarrow>
                         Some (Num (scale10
                           ((if neg then - 1 else 1) * int (nat_of_digits (ip @ fp)))
                           (e - int (length fp)))))"

text \<open>One value under \<^verbatim>\<open>pd.to_numeric(..., errors="coerce")\<close>.\<close>

fun numeric_cell :: "cell \<Rightarrow> cell" where
  "numeric_cell Missing = Missing"
| "numeric_cell (Num q) = Num q"
| "numeric_cell (Str s) = (case parse_number s of Some v \<Rightarrow> v | None \<Rightarrow> Missing)"
| "numeric_cell (Stamp t) = Missing"

definition to_numeric_coerce :: "cell list \<Rightarrow> cell list" where
  "to_numeric_coerce col = map numeric_cell col"

text \<open>Whether \<^verbatim>\<open>pd.to_numeric\<close> can read a value at all.\<close>

fun parses :: "cell \<Rightarrow> bool" where
  "parses Missing \<longleftrightarrow> True"
| "parses (Num q) \<longleftrightarrow> True"
| "parses (Str s) \<longleftrightarrow> parse_number s \<noteq> None"
| "parses (Stamp t) \<longleftrightarrow> False"

text \<open>
  \<^verbatim>\<open>pd.to_numeric(..., errors="ignore")\<close>: the parse error of any one value is caught
  and the input comes back as it was.
\<close>

definition to_numeric_ignore :: "cell list \<Rightarrow> cell list" where
  "to_numeric_ignore col = (if \<forall>v \<in> set col. parses v then map numeric_cell col else col)"

text \<open>A column has dtype \<^verbatim>\<open>object\<close> when it holds text.\<close>

definition is_object :: "cell list \<Rightarrow> bool" where
  "is_object col \<longleftrightarrow> (\<exists>v \<in> set col. case v of Str s \<Rightarrow> True | _ \<Rightarrow> False)"

text \<open>
  One value under \<^verbatim>\<open>pd.to_datetime(..., errors="coerce")\<close>. The library's reader of
  dates in text is not part of this program: it is the parameter \<open>dp\<close>, which is given
  the whole column (the library may settle a format from it) and one text. A number is
  read as nanoseconds since the epoch, within the 64-bit range of the timestamps.
\<close>

type_synonym date_parser = "cell list \<Rightarrow> string \<Rightarrow> int option"

fun datetime_cell :: "date_parser \<Rightarrow> cell list \<Rightarrow> cell \<Rightarrow> cell" where
  "datetime_cell dp col Missing = Missing"
| "datetime_cell dp col (Stamp t) = Stamp t"
| "datetime_cell dp col (Num q) =
     (if - (2 ^ 63) < \<lfloor>q\<rfloor> \<and> \<lfloor>q\<rfloor> < 2 ^ 63 then Stamp \<lfloor>q\<rfloor> else Missing)"
| "datetime_cell dp col (Str s) = (case dp col s of Some t \<Rightarrow> Stamp t | None \<Rightarrow> Missing)"

definition to_datetime :: "date_parser \<Rightarrow> cell list \<Rightarrow> cell list" where
  "to_datetime dp col = map (datetime_cell dp col) col"

text \<open>Decimal digits of a natural number, most significant first.\<close>

function show_nat :: "nat \<Rightarrow> string" where
  "show_nat n =
     (if n < 10 then [digit_char n] else show_nat (n div 10) @ [digit_char (n mod 10)])"
  by pat_completeness auto
termination
  by (relation "measure id") auto

declare show_nat.simps [simp del]

text \<open>
  The digits after the decimal point of \<open>r / d\<close> (with \<open>r < d\<close>) by long division,
  as many as \<open>fuel\<close> allows; the division of a finite decimal stops by itself.
\<close>

fun frac_digits :: "nat \<Rightarrow> nat \<Rightarrow> nat \<Rightarrow> string" where
  "frac_digits r d 0 = []"
| "frac_digits r d (Suc fuel) =
     (if r = 0 then []
      else digit_char (10 * r div d) # frac_digits (10 * r mod d) d fuel)"

text \<open>
  The text of a number: sign, integer part and, when there is one, the fraction. A
  finite decimal is written out in full, so reading the text gives the number back.
\<close>

definition show_rat :: "rat \<Rightarrow> string" where
  "show_rat q =
     (let (n, d) = quotient_of q;
          a = nat \<bar>n\<bar>;
          b = nat d
      in (if n < 0 then [CHR ''-''] else []) @ show_nat (a div b) @
         (if a mod b = 0 then [] else CHR ''.'' # frac_digits (a mod b) b b))"

text \<open>The characters of the text of a number.\<close>

definition plain_char :: "char \<Rightarrow> bool" where
  "plain_char c \<longleftrightarrow> is_digit c \<or> c = CHR ''-'' \<or> c = CHR ''.''"

text \<open>
  One value under \<^verbatim>\<open>astype(str)\<close>. A missing value prints as \<^verbatim>\<open>nan\<close>. A timestamp
  prints as a calendar date with \<^verbatim>\<open>-\<close> and \<^verbatim>\<open>:\<close> in it; the calendar is not modelled,
  the text here keeps the instant between two colons and, as the real one, is no number.
\<close>

fun astype_str :: "cell \<Rightarrow> string" where
  "astype_str Missing = ''nan''"
| "astype_str (Num q) = show_rat q"
| "astype_str (Str s) = s"
| "astype_str (Stamp t) =
     CHR '':'' # (if t < 0 then [CHR ''-''] else []) @ show_nat (nat \<bar>t\<bar>) @ [CHR '':'']"

section \<open>Operations on frames\<close>

text \<open>\<^verbatim>\<open>df.rename(columns={old: new})\<close>.\<close>

definition rename_col :: "string \<Rightarrow> string \<Rightarrow> table \<Rightarrow> table" where
  "rename_col old new t = t\<lparr>columns := map (\<lambda>c. if c = old then new else c) (columns t)\<rparr>"

text \<open>\<^verbatim>\<open>df.drop_duplicates()\<close>: of equal rows the first stays; missing equals missing.\<close>

fun keep_first :: "'a list \<Rightarrow> 'a list \<Rightarrow> 'a list" where
  "keep_first seen [] = []"
| "keep_first seen (r # rs) =
     (if r \<in> set seen then keep_first seen rs else r # keep_first (r # seen) rs)"

definition drop_duplicates :: "table \<Rightarrow> table" where
  "drop_duplicates t = t\<lparr>rows := keep_first [] (rows t)\<rparr>"

text \<open>\<^verbatim>\<open>df[[a, b]]\<close>: a \<^verbatim>\<open>KeyError\<close> when one of the labels is not a column.\<close>

definition select_cols :: "string list \<Rightarrow> table \<Rightarrow> error + table" where
  "select_cols names t =
     (case filter (\<lambda>n. n \<notin> set (columns t)) names of
        [] \<Rightarrow> Inr \<lparr>columns = names,
                  rows = map (\<lambda>r. map (\<lambda>n. r ! index_of n (columns t)) names) (rows t)\<rparr>
      | n # ns \<Rightarrow> Inl (KeyError n))"

text \<open>\<^verbatim>\<open>df.dropna()\<close>: rows with a missing value in any column go.\<close>

definition dropna :: "table \<Rightarrow> table" where
  "dropna t = t\<lparr>rows := filter (\<lambda>r. Missing \<notin> set r) (rows t)\<rparr>"

text \<open>The order in which pandas sorts group keys: numbers, then text, by value.\<close>

fun cell_key :: "cell \<Rightarrow> nat \<times> rat \<times> string \<times> int" where
  "cell_key (Num q) = (0, q, [], 0)"
| "cell_key (Str s) = (1, 0, s, 0)"
| "cell_key (Stamp t) = (2, 0, [], t)"
| "cell_key Missing = (3, 0, [], 0)"

fun nums :: "cell list \<Rightarrow> rat list" where
  "nums [] = []"
| "nums (Num q # vs) = q # nums vs"
| "nums (v # vs) = nums vs"

text \<open>The mean of a group skips missing values and is missing when nothing is left.\<close>

definition mean_cell :: "cell list \<Rightarrow> cell" where
  "mean_cell vs =
     (if nums vs = [] then Missing else Num (sum_list (nums vs) / of_nat (length (nums vs))))"

definition numeric_col :: "cell list \<Rightarrow> bool" where
  "numeric_col col \<longleftrightarrow> (\<forall>v \<in> set col. case v of Missing \<Rightarrow> True | Num q \<Rightarrow> True | _ \<Rightarrow> False)"

text \<open>
  \<^verbatim>\<open>df.groupby(key).agg(mean of metric).reset_index()\<close>: rows whose key is missing
  belong to no group, the groups come in the order of their keys, and the result has the
  key column and the column of means, called \<open>out\<close>. The mean of a column that is not
  numeric is refused with a \<^verbatim>\<open>TypeError\<close>.
\<close>

definition groupby_mean :: "string \<Rightarrow> string \<Rightarrow> string \<Rightarrow> table \<Rightarrow> error + table" where
  "groupby_mean key metric out t =
     (let ki = index_of key (columns t);
          mi = index_of metric (columns t);
          rs = filter (\<lambda>r. r ! ki \<noteq> Missing) (rows t);
          ks = sort_key cell_key (remdups (map (\<lambda>r. r ! ki) rs))
      in if \<not> numeric_col (get_col metric t) then Inl (TypeError metric)
         else Inr \<lparr>columns = [key, out],
                   rows = map (\<lambda>k. [k, mean_cell (map (\<lambda>r. r ! mi)
                                          (filter (\<lambda>r. r ! ki = k) rs))]) ks\<rparr>)"

text \<open>The keys of the groups of a frame, in the order of the result.\<close>

definition group_keys :: "string \<Rightarrow> table \<Rightarrow> cell list" where
  "group_keys key t = sort_key cell_key (remdups (filter (\<lambda>k. k \<noteq> Missing) (get_col key t)))"

text \<open>
  \<^verbatim>\<open>df.sort_values(name, ascending=False)\<close>: largest first, rows with a missing value
  last. (Which of two rows with equal values comes first is not fixed by the library's
  default sort; here it is the earlier one.)
\<close>

definition sort_values_desc :: "string \<Rightarrow> table \<Rightarrow> table" where
  "sort_values_desc name t =
     (let i = index_of name (columns t);
          present = filter (\<lambda>r. r ! i \<noteq> Missing) (rows t);
          absent = filter (\<lambda>r. r ! i = Missing) (rows t)
      in t\<lparr>rows := rev (sort_key (\<lambda>r. cell_key (r ! i)) (rev present)) @ absent\<rparr>)"

definition drop_nth :: "nat \<Rightarrow> 'a list \<Rightarrow> 'a list" where
  "drop_nth i r = take i r @ drop (Suc i) r"

definition text_only :: "cell list \<Rightarrow> bool" where
  "text_only col \<longleftrightarrow> is_object col \<and>
     (\<forall>v \<in> set col. case v of Missing \<Rightarrow> True | Str s \<Rightarrow> True | _ \<Rightarrow> False)"

definition number_only :: "cell list \<Rightarrow> bool" where
  "number_only col \<longleftrightarrow> numeric_col col \<and> (\<exists>v \<in> set col. v \<noteq> Missing)"

text \<open>
  \<^verbatim>\<open>left.merge(right, left_on=lk, right_on=rk, how="left", suffixes=(ls, rs))\<close>.
  The library raises when a key label is absent or names more than one column, and when
  one key column is text and the other numeric. Otherwise every left row is joined, in
  order, with each right row of equal key (a missing key equals a missing key), or with
  missing values when there is none. The left columns come first. When both keys have
  one name the right key column is left out. A label that both sides carry gets the
  side's suffix. \<open>join_row\<close> gives the rows that one left row \<open>l\<close> contributes.
\<close>

definition join_row ::
  "cell list list \<Rightarrow> nat \<Rightarrow> nat \<Rightarrow> nat \<Rightarrow> (cell list \<Rightarrow> cell list) \<Rightarrow> cell list
     \<Rightarrow> cell list list" where
  "join_row right_rows li ri width rcells l =
     (case filter (\<lambda>r. r ! ri = l ! li) right_rows of
        [] \<Rightarrow> [l @ replicate width Missing]
      | m # ms \<Rightarrow> map (\<lambda>r. l @ rcells r) (m # ms))"

definition merge_left ::
  "table \<Rightarrow> table \<Rightarrow> string \<Rightarrow> string \<Rightarrow> string \<times> string \<Rightarrow> error + table" where
  "merge_left left right lk rk suffixes =
     (let li = index_of lk (columns left);
          ri = index_of rk (columns right);
          same = (lk = rk);
          rcols = (if same then drop_nth ri (columns right) else columns right);
          rcells = (\<lambda>r. if same then drop_nth ri r else r)
      in if lk \<notin> set (columns left) then Inl (KeyError lk)
         else if rk \<notin> set (columns right) then Inl (KeyError rk)
         else if count_list (columns left) lk \<noteq> 1 then Inl (ValueError lk)
         else if count_list (columns right) rk \<noteq> 1 then Inl (ValueError rk)
         else if (text_only (get_col lk left) \<and> number_only (get_col rk right)) \<or>
                 (number_only (get_col lk left) \<and> text_only (get_col rk right))
         then Inl (ValueError ''merge'')
         else Inr \<lparr>columns =
                     map (\<lambda>c. if c \<in> set rcols \<and> fst suffixes \<noteq> [] then c @ fst suffixes else c)
                       (columns left) @
                     map (\<lambda>c. if c \<in> set (columns left) \<and> snd suffixes \<noteq> []
                              then c @ snd suffixes else c) rcols,
                   rows = concat (map (join_row (rows right) li ri (length rcols) rcells)
                                    (rows left))\<rparr>)"

section \<open>The pipeline\<close>

text \<open>
  Each function below follows the function of the same name in
  \<^verbatim>\<open>geia_streamlit_app.py\<close>, statement by statement. A function that can raise returns
  \<open>error + table\<close>.
\<close>

definition default_price_columns :: "string list" where
  "default_price_columns = [''price'', ''price_per_night'', ''precio'', ''price_m2'']"

text \<open>The euro sign, in UTF-8.\<close>

definition euro :: string where
  "euro = [CHR 0xE2, CHR 0x82, CHR 0xAC]"

text \<open>The chain \<^verbatim>\<open>.astype(str).str.replace(...).str.replace(...).str.replace(...).str.strip()\<close>
  on one value.\<close>

definition price_text :: "cell \<Rightarrow> string" where
  "price_text v =
     str_strip (str_replace '','' [] (str_replace euro [] (str_replace ''$'' []
       (astype_str v))))"

text \<open>The body of the loop of \<^verbatim>\<open>standardize_prices\<close>: the two assignments to the column.\<close>

definition standardize_column :: "string \<Rightarrow> table \<Rightarrow> table" where
  "standardize_column column cleaned =
     (let texts = set_col column (map (\<lambda>v. Str (price_text v)) (get_col column cleaned)) cleaned
      in set_col column (to_numeric_coerce (get_col column texts)) texts)"

text \<open>\<^verbatim>\<open>price_columns or [...]\<close>: the default stands in for \<^verbatim>\<open>None\<close> and for the empty list.\<close>

definition candidate_columns :: "string list option \<Rightarrow> string list" where
  "candidate_columns price_columns =
     (case price_columns of
        None \<Rightarrow> default_price_columns
      | Some [] \<Rightarrow> default_price_columns
      | Some ps \<Rightarrow> ps)"

text \<open>One turn of the loop: the test \<^verbatim>\<open>column in cleaned.columns\<close> and the body.\<close>

definition standardize_step :: "string \<Rightarrow> table \<Rightarrow> table" where
  "standardize_step column cleaned =
     (if column \<in> set (columns cleaned) then standardize_column column cleaned else cleaned)"

definition standardize_prices :: "table \<Rightarrow> string list option \<Rightarrow> table" where
  "standardize_prices df price_columns =
     fold standardize_step (candidate_columns price_columns) df"

text \<open>What the two assignments together do to one value of a price column.\<close>

definition price_cell :: "cell \<Rightarrow> cell" where
  "price_cell v = numeric_cell (Str (price_text v))"

text \<open>The test \<^verbatim>\<open>"date" in col or "fecha" in col\<close>.\<close>

definition date_named :: "string \<Rightarrow> bool" where
  "date_named col \<longleftrightarrow> str_contains ''date'' col \<or> str_contains ''fecha'' col"

text \<open>The body of the loop of \<^verbatim>\<open>normalize_types\<close>.\<close>

definition normalize_column :: "date_parser \<Rightarrow> string \<Rightarrow> table \<Rightarrow> table" where
  "normalize_column dp col normalized =
     (let dated =
            (if date_named col
             then set_col col (to_datetime dp (get_col col normalized)) normalized
             else normalized)
      in if is_object (get_col col dated)
         then set_col col (to_numeric_ignore (get_col col dated)) dated
         else dated)"

text \<open>The values that one turn of the loop leaves in the column it visits.\<close>

definition normalized_values :: "date_parser \<Rightarrow> string \<Rightarrow> cell list \<Rightarrow> cell list" where
  "normalized_values dp col vs =
     (let dated = (if date_named col then to_datetime dp vs else vs)
      in if is_object dated then to_numeric_ignore dated else dated)"


definition normalize_types :: "date_parser \<Rightarrow> table \<Rightarrow> table" where
  "normalize_types dp df = fold (normalize_column dp) (columns df) df"

text \<open>\<^verbatim>\<open>365 - value\<close> on a numeric column: a missing value stays missing.\<close>

fun minus_from_365 :: "cell \<Rightarrow> cell" where
  "minus_from_365 (Num q) = Num (365 - q)"
| "minus_from_365 v = Missing"

text \<open>The first \<^verbatim>\<open>if\<close> of \<^verbatim>\<open>add_basic_columns\<close>.\<close>

definition with_precio_noche :: "table \<Rightarrow> table" where
  "with_precio_noche df =
     (if ''price'' \<in> set (columns df)
      then set_col ''precio_noche'' (to_numeric_coerce (get_col ''price'' df)) df
      else df)"

definition add_basic_columns :: "table \<Rightarrow> table" where
  "add_basic_columns df =
     (let enriched = with_precio_noche df
      in if ''availability_365'' \<in> set (columns enriched)
         then set_col ''ocupacion_estimada''
                (map minus_from_365
                   (to_numeric_coerce (get_col ''availability_365'' enriched)))
                enriched
         else enriched)"

definition clean_dataset :: "date_parser \<Rightarrow> table \<Rightarrow> table" where
  "clean_dataset dp df =
     drop_duplicates (add_basic_columns (normalize_types dp (standardize_prices df None)))"

text \<open>\<^verbatim>\<open>_prepare_reviews\<close>; the dictionary \<^verbatim>\<open>aggregations\<close> is the list of its keys.\<close>

definition prepare_reviews :: "table \<Rightarrow> error + table" where
  "prepare_reviews reviews =
     (if ''listing_id'' \<notin> set (columns reviews) then Inr empty_frame
      else
        let aggregations = (if ''rating'' \<in> set (columns reviews) then [''rating''] else [])
        in if aggregations = [] then Inr empty_frame
           else groupby_mean ''listing_id'' ''rating'' ''rating'' reviews)"

text \<open>\<^verbatim>\<open>_normalize_neighbourhoods\<close>.\<close>

definition normalize_neighbourhoods :: "table \<Rightarrow> table \<Rightarrow> table \<times> table" where
  "normalize_neighbourhoods listings neighbourhoods =
     (let listings_norm =
            (if ''neighbourhood_cleansed'' \<in> set (columns listings)
             then rename_col ''neighbourhood_cleansed'' ''neighbourhood'' listings
             else listings);
          neighbourhoods_norm =
            (if ''neighbourhood_group'' \<in> set (columns neighbourhoods)
             then rename_col ''neighbourhood_group'' ''district'' neighbourhoods
             else neighbourhoods)
      in (listings_norm, neighbourhoods_norm))"

definition unify_data :: "table \<Rightarrow> table \<Rightarrow> table \<Rightarrow> table \<Rightarrow> error + table" where
  "unify_data listings reviews neighbourhoods idealista =
     (let (listings_norm, neighbourhoods_norm) =
            normalize_neighbourhoods listings neighbourhoods
      in case prepare_reviews reviews of
           Inl e \<Rightarrow> Inl e
         | Inr reviews_summary \<Rightarrow>
             (case (if \<not> frame_empty reviews_summary \<and> ''id'' \<in> set (columns listings_norm)
                    then merge_left listings_norm reviews_summary ''id'' ''listing_id''
                           (''_x'', ''_y'')
                    else Inr listings_norm) of
                Inl e \<Rightarrow> Inl e
              | Inr with_reviews \<Rightarrow>
                  if ''neighbourhood'' \<in> set (columns with_reviews) \<and>
                     ''neighbourhood'' \<in> set (columns neighbourhoods_norm)
                  then merge_left with_reviews neighbourhoods_norm
                         ''neighbourhood'' ''neighbourhood'' ('''', ''_ref'')
                  else Inr with_reviews))"

definition level_message :: string where
  "level_message =
     ''level debe ser '' @ [CHR 0x27] @ ''district'' @ [CHR 0x27] @
     '' o '' @ [CHR 0x27] @ ''neighbourhood'' @ [CHR 0x27]"

text \<open>The chain of \<^verbatim>\<open>price_by_area\<close> and \<^verbatim>\<open>occupancy_by_area\<close> after their two tests.\<close>

definition mean_by_area :: "string \<Rightarrow> string \<Rightarrow> string \<Rightarrow> table \<Rightarrow> error + table" where
  "mean_by_area level metric out df =
     (case select_cols [level, metric] df of
        Inl e \<Rightarrow> Inl e
      | Inr picked \<Rightarrow>
          (case groupby_mean level metric out (dropna picked) of
             Inl e \<Rightarrow> Inl e
           | Inr grouped \<Rightarrow> Inr (sort_values_desc out grouped)))"

text \<open>
  The pairs of area and metric of the rows in which neither is missing: what is left of
  the two selected columns after \<^verbatim>\<open>dropna\<close>.
\<close>

definition complete_pairs :: "string \<Rightarrow> string \<Rightarrow> table \<Rightarrow> (cell \<times> cell) list" where
  "complete_pairs level metric t =
     filter (\<lambda>p. fst p \<noteq> Missing \<and> snd p \<noteq> Missing) (zip (get_col level t) (get_col metric t))"

definition price_by_area :: "table \<Rightarrow> string \<Rightarrow> error + table" where
  "price_by_area df level =
     (if level \<notin> {''district'', ''neighbourhood''} then Inl (ValueError level_message)
      else if level \<notin> set (columns df) then Inr empty_frame
      else mean_by_area level ''precio_noche'' ''precio_medio'' df)"

definition occupancy_by_area :: "table \<Rightarrow> string \<Rightarrow> error + table" where
  "occupancy_by_area df level =
     (if level \<notin> {''district'', ''neighbourhood''} then Inl (ValueError level_message)
      else if level \<notin> set (columns df) then Inr empty_frame
      else mean_by_area level ''ocupacion_estimada'' ''ocupacion_media'' df)"

section \<open>The pipeline on a store of frames\<close>

text \<open>
  In Python a frame is an object and \<^verbatim>\<open>df[name] = values\<close> changes it in place. To say
  what a call does to the frame it was given, the frames live in a store, a list indexed
  by their addresses. \<^verbatim>\<open>df.copy()\<close> allocates a new frame with the same contents; an
  assignment to a column changes the frame at one address; \<^verbatim>\<open>drop_duplicates()\<close> returns
  a new frame. The functions below are the cleaning functions of the source once more,
  with the store threaded through: they take the address of \<^verbatim>\<open>df\<close> and return the new
  store and the address of the result.
\<close>

type_synonym store = "table list"

definition copy_frame :: "store \<Rightarrow> nat \<Rightarrow> store \<times> nat" where
  "copy_frame h r = (h @ [h ! r], length h)"

definition new_frame :: "store \<Rightarrow> table \<Rightarrow> store \<times> nat" where
  "new_frame h t = (h @ [t], length h)"

definition assign_col :: "nat \<Rightarrow> string \<Rightarrow> cell list \<Rightarrow> store \<Rightarrow> store" where
  "assign_col r name vs h = h[r := set_col name vs (h ! r)]"

definition standardize_step_st :: "nat \<Rightarrow> string \<Rightarrow> store \<Rightarrow> store" where
  "standardize_step_st cleaned column h =
     (if column \<in> set (columns (h ! cleaned))
      then
        let h1 = assign_col cleaned column
                   (map (\<lambda>v. Str (price_text v)) (get_col column (h ! cleaned))) h
        in assign_col cleaned column (to_numeric_coerce (get_col column (h1 ! cleaned))) h1
      else h)"

definition standardize_prices_st :: "store \<Rightarrow> nat \<Rightarrow> string list option \<Rightarrow> store \<times> nat" where
  "standardize_prices_st h df price_columns =
     (let (h1, cleaned) = copy_frame h df
      in (fold (standardize_step_st cleaned) (candidate_columns price_columns) h1, cleaned))"

definition normalize_column_st :: "date_parser \<Rightarrow> nat \<Rightarrow> string \<Rightarrow> store \<Rightarrow> store" where
  "normalize_column_st dp normalized col h =
     (let h1 = (if date_named col
                then assign_col normalized col
                       (to_datetime dp (get_col col (h ! normalized))) h
                else h)
      in if is_object (get_col col (h1 ! normalized))
         then assign_col normalized col
                (to_numeric_ignore (get_col col (h1 ! normalized))) h1
         else h1)"

definition normalize_types_st :: "date_parser \<Rightarrow> store \<Rightarrow> nat \<Rightarrow> store \<times> nat" where
  "normalize_types_st dp h df =
     (let (h1, normalized) = copy_frame h df
      in (fold (normalize_column_st dp normalized) (columns (h1 ! normalized)) h1,
          normalized))"

definition add_basic_columns_st :: "store \<Rightarrow> nat \<Rightarrow> store \<times> nat" where
  "add_basic_columns_st h df =
     (let (h1, enriched) = copy_frame h df;
          h2 = (if ''price'' \<in> set (columns (h1 ! enriched))
                then assign_col enriched ''precio_noche''
                       (to_numeric_coerce (get_col ''price'' (h1 ! enriched))) h1
                else h1);
          h3 = (if ''availability_365'' \<in> set (columns (h2 ! enriched))
                then assign_col enriched ''ocupacion_estimada''
                       (map minus_from_365
                          (to_numeric_coerce (get_col ''availability_365'' (h2 ! enriched))))
                       h2
                else h2)
      in (h3, enriched))"

definition clean_dataset_st :: "date_parser \<Rightarrow> store \<Rightarrow> nat \<Rightarrow> store \<times> nat" where
  "clean_dataset_st dp h df =
     (let (h1, priced) = standardize_prices_st h df None;
          (h2, typed) = normalize_types_st dp h1 priced;
          (h3, enriched) = add_basic_columns_st h2 typed
      in new_frame h3 (drop_duplicates (h3 ! enriched)))"

section \<open>Columns of a well-formed frame\<close>

text \<open>Reading and writing a column by its label, as the assignments of the source do.\<close>

lemma index_of_less: "x \<in> set xs \<Longrightarrow> index_of x xs < length xs"
  by (induction xs) auto

lemma nth_index_of: "x \<in> set xs \<Longrightarrow> xs ! index_of x xs = x"
  by (induction xs) auto


lemma index_of_inject:
  "x \<in> set xs \<Longrightarrow> y \<in> set xs \<Longrightarrow> index_of x xs = index_of y xs \<Longrightarrow> x = y"
  by (metis nth_index_of)

lemma index_of_append_in: "x \<in> set xs \<Longrightarrow> index_of x (xs @ ys) = index_of x xs"
  by (induction xs) auto

lemma index_of_append_notin:
  "x \<notin> set xs \<Longrightarrow> index_of x (xs @ ys) = length xs + index_of x ys"
  by (induction xs) auto

lemma length_get_col: "length (get_col n t) = length (rows t)"
  by (simp add: get_col_def)

lemma columns_set_col:
  "columns (set_col n vs t) = (if n \<in> set (columns t) then columns t else columns t @ [n])"
  by (simp add: set_col_def)

lemma length_rows_set_col:
  "length vs = length (rows t) \<Longrightarrow> length (rows (set_col n vs t)) = length (rows t)"
  by (simp add: set_col_def)

lemma wf_set_col: "wf_table t \<Longrightarrow> wf_table (set_col n vs t)"
  by (auto simp: wf_table_def set_col_def dest!: set_zip_leftD)

lemma get_col_set_col_same:
  assumes "wf_table t" and "length vs = length (rows t)"
  shows "get_col n (set_col n vs t) = vs"
proof (cases "n \<in> set (columns t)")
  case True
  then have "index_of n (columns t) < length (columns t)" by (rule index_of_less)
  then have "\<forall>r \<in> set (rows t). index_of n (columns t) < length r"
    using assms(1) by (simp add: wf_table_def)
  then have "map (\<lambda>(r, v). r[index_of n (columns t) := v] ! index_of n (columns t))
      (zip (rows t) vs) = map snd (zip (rows t) vs)"
    by (auto dest: set_zip_leftD)
  then show ?thesis using True assms(2)
    by (simp add: get_col_def set_col_def o_def case_prod_unfold)
next
  case False
  have "\<forall>r \<in> set (rows t). length r = length (columns t)"
    using assms(1) by (simp add: wf_table_def)
  then have "map (\<lambda>(r, v). (r @ [v]) ! length (columns t)) (zip (rows t) vs)
      = map snd (zip (rows t) vs)"
    by (auto simp: nth_append dest!: set_zip_leftD)
  then show ?thesis using False assms(2)
    by (simp add: get_col_def set_col_def o_def case_prod_unfold index_of_append_notin)
qed

lemma get_col_set_col_other:
  assumes "wf_table t" and "length vs = length (rows t)"
    and "m \<in> set (columns t)" and "m \<noteq> n"
  shows "get_col m (set_col n vs t) = get_col m t"
proof -
  have lt: "index_of m (columns t) < length (columns t)"
    using assms(3) by (rule index_of_less)
  have len: "\<forall>r \<in> set (rows t). length r = length (columns t)"
    using assms(1) by (simp add: wf_table_def)
  have z: "map fst (zip (rows t) vs) = rows t"
    using assms(2) by simp
  show ?thesis
  proof (cases "n \<in> set (columns t)")
    case True
    then have "index_of n (columns t) \<noteq> index_of m (columns t)"
      using assms(3,4) index_of_inject by metis
    then have "map (\<lambda>(r, v). r[index_of n (columns t) := v] ! index_of m (columns t))
        (zip (rows t) vs) = map (\<lambda>p. fst p ! index_of m (columns t)) (zip (rows t) vs)"
      by auto
    also have "\<dots> = map (\<lambda>r. r ! index_of m (columns t)) (map fst (zip (rows t) vs))"
      by (simp add: o_def)
    finally show ?thesis using True z
      by (simp add: get_col_def set_col_def o_def case_prod_unfold)
  next
    case False
    have "map (\<lambda>(r, v). (r @ [v]) ! index_of m (columns t)) (zip (rows t) vs)
        = map (\<lambda>p. fst p ! index_of m (columns t)) (zip (rows t) vs)"
      using len lt by (auto simp: nth_append dest: set_zip_leftD)
    also have "\<dots> = map (\<lambda>r. r ! index_of m (columns t)) (map fst (zip (rows t) vs))"
      by (simp add: o_def)
    finally show ?thesis using False z assms(3)
      by (simp add: get_col_def set_col_def o_def case_prod_unfold index_of_append_in)
  qed
qed


section \<open>The text of a number reads back as the number\<close>

text \<open>
  A second run of the price normalizer meets the numbers that the first run produced. It
  turns them to text and reads the text, so it matters that this gives the number back.
\<close>

lemmas parse_defs = parse_number_def skip_blanks_def is_blank_def is_digit_def to_lower_def
  parse_exponent_def scale10_def nat_of_digits_def digit_val_def

lemmas price_defs = price_cell_def price_text_def euro_def str_strip_def is_space_def
  wide_spaces_def

lemma parse_number_cases: "parse_number s = Some v \<Longrightarrow> v = Missing \<or> (\<exists>q. v = Num q)"
  by (auto simp: parse_number_def Let_def split: if_splits option.splits prod.splits)

lemma numeric_cell_cases: "numeric_cell v = Missing \<or> (\<exists>q. numeric_cell v = Num q)"
  by (cases v) (auto split: option.splits dest: parse_number_cases)

lemma numeric_col_numeric_cell: "numeric_col (map numeric_cell vs)"
proof -
  have "case numeric_cell v of Missing \<Rightarrow> True | Num q \<Rightarrow> True | _ \<Rightarrow> False" for v
    using numeric_cell_cases [of v] by auto
  then show ?thesis by (simp add: numeric_col_def)
qed

lemma digit_char_facts:
  assumes "d < 10"
  shows "is_digit (digit_char d)" and "digit_val (digit_char d) = d"
    and "\<not> is_space (digit_char d)"
    and "digit_char d \<noteq> CHR ''.''" and "digit_char d \<noteq> CHR ''-''" and "digit_char d \<noteq> CHR ''+''"
    and "digit_char d \<noteq> CHR ''$''" and "digit_char d \<noteq> CHR '',''" and "digit_char d \<noteq> CHR 0xE2"
    and "to_lower (digit_char d) \<noteq> CHR ''n''"
proof -
  have v: "(of_char (digit_char d) :: nat) = 48 + d"
    using assms by (simp add: digit_char_def)
  show "is_digit (digit_char d)" using assms by (simp add: is_digit_def v)
  show "digit_val (digit_char d) = d" by (simp add: digit_val_def v)
  show "\<not> is_space (digit_char d)" using assms by (auto simp: is_space_def v)
  have ne: "digit_char d \<noteq> c" if "(of_char c :: nat) < 48 \<or> 57 < (of_char c :: nat)" for c
    using that v assms by auto
  show "digit_char d \<noteq> CHR ''.''" "digit_char d \<noteq> CHR ''-''" "digit_char d \<noteq> CHR ''+''"
    "digit_char d \<noteq> CHR ''$''" "digit_char d \<noteq> CHR '',''" "digit_char d \<noteq> CHR 0xE2"
    by (rule ne, simp)+
  have "to_lower (digit_char d) = digit_char d"
    using assms by (simp add: to_lower_def v)
  then show "to_lower (digit_char d) \<noteq> CHR ''n''" using ne [of "CHR ''n''"] by simp
qed

lemma nat_of_digits_snoc: "nat_of_digits (xs @ [c]) = 10 * nat_of_digits xs + digit_val c"
  by (simp add: nat_of_digits_def)

lemma nat_of_digits_append:
  "nat_of_digits (xs @ ys) = nat_of_digits xs * 10 ^ length ys + nat_of_digits ys"
proof (induction ys rule: rev_induct)
  case Nil
  then show ?case by (simp add: nat_of_digits_def)
next
  case (snoc y ys)
  have "nat_of_digits (xs @ ys @ [y]) = 10 * nat_of_digits (xs @ ys) + digit_val y"
    using nat_of_digits_snoc [of "xs @ ys" y] by simp
  then show ?case using snoc by (simp add: nat_of_digits_snoc algebra_simps)
qed

lemma show_nat_facts:
  "show_nat n \<noteq> []" "\<forall>c \<in> set (show_nat n). is_digit c" "nat_of_digits (show_nat n) = n"
proof -
  show "show_nat n \<noteq> []" by (subst show_nat.simps) simp
  show "\<forall>c \<in> set (show_nat n). is_digit c"
  proof (induction n rule: show_nat.induct)
    case (1 n)
    show ?case
    proof (cases "n < 10")
      case True
      then show ?thesis by (subst show_nat.simps) (simp add: digit_char_facts)
    next
      case False
      then show ?thesis
        using 1 by (subst show_nat.simps) (simp add: digit_char_facts)
    qed
  qed
  show "nat_of_digits (show_nat n) = n"
  proof (induction n rule: show_nat.induct)
    case (1 n)
    show ?case
    proof (cases "n < 10")
      case True
      then show ?thesis
        by (subst show_nat.simps) (simp add: nat_of_digits_def digit_char_facts)
    next
      case False
      then show ?thesis
        using 1 by (subst show_nat.simps) (simp add: nat_of_digits_snoc digit_char_facts)
    qed
  qed
qed

lemma frac_digits_digits:
  "r < d \<Longrightarrow> \<forall>c \<in> set (frac_digits r d fuel). is_digit c"
proof (induction fuel arbitrary: r)
  case 0
  then show ?case by simp
next
  case (Suc fuel)
  have lt: "10 * r div d < 10" using Suc.prems
    by (simp add: less_mult_imp_div_less)
  have "10 * r mod d < d" using Suc.prems by simp
  then show ?case using Suc.IH lt by (simp add: digit_char_facts)
qed

lemma frac_digits_value:
  "r < d \<Longrightarrow> d dvd r * 10 ^ fuel \<Longrightarrow>
     nat_of_digits (frac_digits r d fuel) * d = r * 10 ^ length (frac_digits r d fuel)"
proof (induction fuel arbitrary: r)
  case 0
  then have "r = 0" by (auto dest: dvd_imp_le)
  then show ?case by (simp add: nat_of_digits_def)
next
  case (Suc fuel)
  show ?case
  proof (cases "r = 0")
    case True
    then show ?thesis by (simp add: nat_of_digits_def)
  next
    case False
    let ?q = "10 * r div d" and ?r' = "10 * r mod d"
    let ?ds = "frac_digits ?r' d fuel"
    have lt: "?q < 10" using Suc.prems(1) by (simp add: less_mult_imp_div_less)
    have r': "?r' < d" using Suc.prems(1) by simp
    have "d dvd (10 * r) * 10 ^ fuel" using Suc.prems(2) by (simp add: mult.assoc mult.left_commute)
    moreover have "10 * r = ?q * d + ?r'" by simp
    ultimately have "d dvd (?q * d + ?r') * 10 ^ fuel" by (simp only:)
    moreover have "(?q * d + ?r') * 10 ^ fuel = (?q * 10 ^ fuel) * d + ?r' * 10 ^ fuel"
      by (simp only: add_mult_distrib mult.assoc mult.commute [of d])
    ultimately have "d dvd (?q * 10 ^ fuel) * d + ?r' * 10 ^ fuel" by (simp only:)
    then have dv: "d dvd ?r' * 10 ^ fuel"
      by (simp only: dvd_add_times_triv_left_iff)
    note ih = Suc.IH [OF r' dv]
    have "nat_of_digits (digit_char ?q # ?ds)
        = ?q * 10 ^ length ?ds + nat_of_digits ?ds"
      using nat_of_digits_append [of "[digit_char ?q]" ?ds] lt
      by (simp add: nat_of_digits_def digit_char_facts)
    then have "nat_of_digits (digit_char ?q # ?ds) * d
        = ?q * d * 10 ^ length ?ds + nat_of_digits ?ds * d"
      by (simp only: add_mult_distrib mult.assoc mult.commute [of d])
    also have "\<dots> = ?q * d * 10 ^ length ?ds + ?r' * 10 ^ length ?ds"
      by (simp only: ih)
    also have "\<dots> = (?q * d + ?r') * 10 ^ length ?ds"
      by (simp only: add_mult_distrib)
    also have "?q * d + ?r' = 10 * r" by simp
    finally have "nat_of_digits (digit_char ?q # ?ds) * d = r * 10 ^ Suc (length ?ds)"
      by (simp add: mult.assoc mult.left_commute)
    then show ?thesis using False by simp
  qed
qed

lemma dvd_power_ten_self:
  fixes d :: nat
  assumes "d dvd 10 ^ k"
  shows "d dvd 10 ^ d"
  using assms
proof (induction d rule: less_induct)
  case (less d)
  have pos: "d \<noteq> 0"
  proof
    assume "d = 0"
    with less.prems show False by simp
  qed
  show ?case
  proof (cases "d = 1")
    case True
    then show ?thesis by simp
  next
    case False
    define g where "g = gcd d 10"
    have g10: "g dvd 10" and gd: "g dvd d" by (simp_all add: g_def)
    have g1: "g \<noteq> 1"
    proof
      assume "g = 1"
      then have "coprime d 10" by (simp add: g_def coprime_iff_gcd_eq_1)
      then have "coprime d (10 ^ k)" by (simp add: coprime_power_right_iff)
      then have "d dvd 1" using less.prems by (rule coprime_common_divisor [OF _ dvd_refl])
      then show False using False by simp
    qed
    have g0: "g \<noteq> 0" using g10 by (metis dvd_0_left_iff zero_neq_numeral)
    then have g2: "2 \<le> g" using g1 by simp
    obtain e where e: "d = g * e" using gd by (auto simp: dvd_def)
    have e_pos: "e \<noteq> 0" using pos e by auto
    have lt: "e < d" using e e_pos g2 by simp
    have "e dvd 10 ^ k" using less.prems e by (metis dvd_mult_right)
    then have ih: "e dvd 10 ^ e" using less.IH lt by blast
    have "g * e dvd 10 * 10 ^ e" using g10 ih by (rule mult_dvd_mono)
    then have "d dvd 10 ^ Suc e" using e by simp
    moreover have "(10 :: nat) ^ Suc e dvd 10 ^ d" using lt by (intro le_imp_power_dvd) simp
    ultimately show ?thesis by (rule dvd_trans)
  qed
qed

lemma str_replace_absent:
  "old \<noteq> [] \<Longrightarrow> hd old \<notin> set s \<Longrightarrow> str_replace old new s = s"
proof (induction s)
  case Nil
  then show ?case by simp
next
  case (Cons c cs)
  have "take (length old) (c # cs) \<noteq> old"
  proof
    assume "take (length old) (c # cs) = old"
    then have "hd old = c" using Cons.prems(1) by (cases old) auto
    then show False using Cons.prems(2) by simp
  qed
  then show ?case using Cons by simp
qed

lemma skip_blanks_id:
  assumes "s \<noteq> []" and "\<not> is_blank (hd s)" and "\<not> is_blank (last s)"
  shows "skip_blanks s = s"
proof -
  have a: "dropWhile is_blank s = s" using assms(1,2) by (cases s) auto
  have "rev s \<noteq> []" "\<not> is_blank (hd (rev s))" using assms(1,3) by (simp_all add: hd_rev)
  then have "dropWhile is_blank (rev s) = rev s" by (cases "rev s") auto
  then show ?thesis by (simp add: skip_blanks_def a)
qed

lemma plain_char_facts:
  assumes "plain_char c"
  shows "\<not> is_space c" "c \<noteq> CHR ''$''" "c \<noteq> CHR '',''" "c \<noteq> CHR 0xE2"
    "\<forall>w \<in> set wide_spaces. c \<notin> set w"
proof -
  have r: "(of_char c :: nat) \<in> {45, 46} \<or> (48 \<le> (of_char c :: nat) \<and> (of_char c :: nat) \<le> 57)"
    using assms by (auto simp: plain_char_def is_digit_def)
  show "\<not> is_space c" using r by (auto simp: is_space_def)
  show "c \<noteq> CHR ''$''" "c \<noteq> CHR '',''" "c \<noteq> CHR 0xE2" using r by auto
  have "(of_char x :: nat) \<ge> 128" if "w \<in> set wide_spaces" "x \<in> set w" for w x
    using that by (auto simp: wide_spaces_def)
  then show "\<forall>w \<in> set wide_spaces. c \<notin> set w" using r by fastforce
qed

lemma strip_front_plain:
  assumes "s \<noteq> []" and "plain_char (hd s)"
  shows "strip_front back s = s"
proof -
  obtain c cs where s: "s = c # cs" using assms(1) by (cases s) auto
  have p: "plain_char c" using assms(2) s by simp
  have two: "c \<in> set (take 2 (c # cs))" and three: "c \<in> set (take 3 (c # cs))"
    by (simp_all add: numeral_2_eq_2 numeral_3_eq_3)
  have n2: "take 2 (c # cs) \<notin> set wide_spaces" "rev (take 2 (c # cs)) \<notin> set wide_spaces"
    using plain_char_facts(5) [OF p] two by (metis, metis set_rev)
  have n3: "take 3 (c # cs) \<notin> set wide_spaces" "rev (take 3 (c # cs)) \<notin> set wide_spaces"
    using plain_char_facts(5) [OF p] three by (metis, metis set_rev)
  show ?thesis
    unfolding s using plain_char_facts(1) [OF p] n2 n3 by (simp del: take_Suc_Cons)
qed

lemma str_strip_plain:
  assumes "s \<noteq> []" and "plain_char (hd s)" and "plain_char (last s)"
  shows "str_strip s = s"
proof -
  have a: "strip_front False s = s" using assms(1,2) by (rule strip_front_plain)
  have "rev s \<noteq> []" "plain_char (hd (rev s))" using assms(1,3) by (simp_all add: hd_rev)
  then have "strip_front True (rev s) = rev s" by (rule strip_front_plain)
  then show ?thesis by (simp add: str_strip_def a)
qed

lemma price_text_plain:
  assumes "s \<noteq> []" and "\<forall>c \<in> set s. plain_char c"
  shows "str_strip (str_replace '','' [] (str_replace euro [] (str_replace ''$'' [] s))) = s"
proof -
  have d: "hd ''$'' \<notin> set s" using assms(2) plain_char_facts(2) by auto
  have c: "hd '','' \<notin> set s" using assms(2) plain_char_facts(3) by auto
  have e: "hd euro \<notin> set s" using assms(2) plain_char_facts(4) by (auto simp: euro_def)
  have r1: "str_replace ''$'' [] s = s" using d by (intro str_replace_absent) simp
  have r2: "str_replace euro [] s = s" using e by (intro str_replace_absent) (simp add: euro_def)
  have r3: "str_replace '','' [] s = s" using c by (intro str_replace_absent) simp
  have "hd s \<in> set s" "last s \<in> set s" using assms(1) by simp_all
  then have "plain_char (hd s)" "plain_char (last s)"
    using assms(2) by blast+
  then have "str_strip s = s" using assms(1) by (intro str_strip_plain)
  then show ?thesis by (simp only: r1 r2 r3)
qed

lemma is_digit_facts:
  assumes "is_digit c"
  shows "\<not> is_blank c" "c \<noteq> CHR ''-''" "c \<noteq> CHR ''+''" "c \<noteq> CHR ''.''"
    "to_lower c \<noteq> CHR ''n''" "plain_char c"
proof -
  have r: "48 \<le> (of_char c :: nat)" "(of_char c :: nat) \<le> 57"
    using assms by (simp_all add: is_digit_def)
  show "\<not> is_blank c" using r by (auto simp: is_blank_def)
  show "c \<noteq> CHR ''-''" "c \<noteq> CHR ''+''" "c \<noteq> CHR ''.''" using r by auto
  have "to_lower c = c" using r by (simp add: to_lower_def)
  then show "to_lower c \<noteq> CHR ''n''" using r by auto
  show "plain_char c" using assms by (simp add: plain_char_def)
qed

lemma not_digit_dot: "\<not> is_digit CHR ''.''"
  by (simp add: is_digit_def)

lemma parse_plain:
  assumes "I \<noteq> []" and "\<forall>c \<in> set I. is_digit c" and "\<forall>c \<in> set fd. is_digit c"
  shows "parse_number ((if neg then [CHR ''-''] else []) @ I @
            (if fd = [] then [] else CHR ''.'' # fd))
     = Some (Num (scale10 ((if neg then - 1 else 1) * int (nat_of_digits (I @ fd)))
                    (- int (length fd))))"
proof -
  define F where "F = (if fd = [] then [] else CHR ''.'' # fd)"
  define U where "U = I @ F"
  define R where "R = (if neg then [CHR ''-''] else []) @ U"
  obtain i I' where I: "I = i # I'" using assms(1) by (cases I) auto
  have i: "is_digit i" using assms(2) I by simp
  have lastR: "last R = (if fd = [] then last I else last fd)"
    using assms(1) by (simp add: R_def U_def F_def)
  have "last I \<in> set I" using assms(1) by simp
  then have "is_digit (last R)"
    using assms(2,3) lastR by (cases "fd = []") auto
  then have l: "\<not> is_blank (last R)" by (rule is_digit_facts)
  have h: "\<not> is_blank (hd R)"
    using is_digit_facts(1) [OF i] by (simp add: R_def U_def I is_blank_def)
  have ne: "R \<noteq> []" by (simp add: R_def U_def I)
  then have s1: "skip_blanks R = R" using h l by (rule skip_blanks_id)
  have s2: "take_sign R = (neg, U)"
    using is_digit_facts(2,3) [OF i] by (simp add: R_def U_def I)
  have s3: "map to_lower U \<noteq> ''nan''"
    using is_digit_facts(5) [OF i] by (simp add: U_def I)
  have tw: "takeWhile is_digit F = []" and dw: "dropWhile is_digit F = F"
    by (simp_all add: F_def not_digit_dot)
  have s4: "takeWhile is_digit U = I"
    unfolding U_def using assms(2) tw by (simp add: takeWhile_append2)
  have s5: "dropWhile is_digit U = F"
    unfolding U_def using assms(2) dw by (simp add: dropWhile_append2)
  have s6: "(case F of [] \<Rightarrow> [] | c # cs \<Rightarrow>
      if c = CHR ''.'' then takeWhile is_digit cs else []) = fd"
    using assms(3) by (simp add: F_def takeWhile_eq_all_conv)
  have s7: "(case F of [] \<Rightarrow> [] | c # cs \<Rightarrow>
      if c = CHR ''.'' then dropWhile is_digit cs else F) = []"
    using assms(3) by (simp add: F_def dropWhile_eq_Nil_conv)
  have s8: "parse_exponent [] = Some 0" by (simp add: parse_exponent_def)
  have "parse_number R
      = Some (Num (scale10 ((if neg then - 1 else 1) * int (nat_of_digits (I @ fd)))
                    (- int (length fd))))"
    unfolding parse_number_def Let_def s1 s2 prod.case s4 s5 s6 s7 s8
    using s3 assms(1) ne by simp
  then show ?thesis by (simp only: R_def U_def F_def)
qed

lemma scale10_neg: "scale10 m (- int L) = of_int m / 10 ^ L"
  by (simp add: scale10_def)

lemma quotient_of_decimal:
  assumes "quotient_of (of_int m / 10 ^ k) = (n, d)"
  shows "0 < d" and "nat d dvd 10 ^ k"
proof -
  show pos: "0 < d" using assms by (rule quotient_of_denom_pos)
  have cop: "coprime n d" using assms by (rule quotient_of_coprime)
  have "(of_int m / 10 ^ k :: rat) = of_int n / of_int d" using assms by (rule quotient_of_div)
  then have "(of_int m :: rat) * of_int d = of_int n * 10 ^ k"
    using pos by (simp add: frac_eq_eq)
  then have "(of_int (m * d) :: rat) = of_int (n * 10 ^ k)" by simp
  then have "m * d = n * 10 ^ k" by (simp only: of_int_eq_iff)
  then have "d dvd n * 10 ^ k" by (metis dvd_triv_right)
  then have "d dvd 10 ^ k" using cop by (simp add: coprime_commute coprime_dvd_mult_right_iff)
  then have "int (nat d) dvd int (10 ^ k)" using pos by simp
  then show "nat d dvd 10 ^ k" by (simp only: int_dvd_int_iff)
qed

lemma frac_digits_nonempty: "r \<noteq> 0 \<Longrightarrow> 0 < fuel \<Longrightarrow> frac_digits r d fuel \<noteq> []"
  by (cases fuel) auto

lemma show_rat_shape:
  assumes "q = of_int m / 10 ^ k"
  shows "\<exists>neg I fd. I \<noteq> [] \<and> (\<forall>c \<in> set I. is_digit c) \<and> (\<forall>c \<in> set fd. is_digit c) \<and>
     show_rat q = (if neg then [CHR ''-''] else []) @ I @ (if fd = [] then [] else CHR ''.'' # fd) \<and>
     q = scale10 ((if neg then - 1 else 1) * int (nat_of_digits (I @ fd))) (- int (length fd))"
proof -
  obtain n d where nd: "quotient_of q = (n, d)" by (cases "quotient_of q")
  define a where "a = nat \<bar>n\<bar>"
  define b where "b = nat d"
  define r where "r = a mod b"
  define I where "I = show_nat (a div b)"
  define fd where "fd = (if r = 0 then [] else frac_digits r b b)"
  define L where "L = length fd"
  have pos: "0 < d" and dv: "b dvd 10 ^ k"
    using quotient_of_decimal [OF nd [unfolded assms]] by (simp_all add: b_def)
  have b0: "0 < b" using pos by (simp add: b_def)
  have rb: "r < b" using b0 by (simp add: r_def)
  have "b dvd 10 ^ b" using dv by (rule dvd_power_ten_self)
  then have dvr: "b dvd r * 10 ^ b" by simp
  have fdne: "fd = [] \<longleftrightarrow> r = 0"
    using frac_digits_nonempty [of r b b] b0 by (simp add: fd_def)
  have sh: "show_rat q = (if n < 0 then [CHR ''-''] else []) @ I @
      (if fd = [] then [] else CHR ''.'' # fd)"
    using fdne by (simp add: show_rat_def nd a_def [symmetric] b_def [symmetric]
        r_def [symmetric] I_def fd_def)
  have dI: "I \<noteq> []" "\<forall>c \<in> set I. is_digit c" "nat_of_digits I = a div b"
    by (simp_all add: I_def show_nat_facts)
  have dfd: "\<forall>c \<in> set fd. is_digit c"
    using frac_digits_digits [OF rb] by (simp add: fd_def)
  have vfd: "nat_of_digits fd * b = r * 10 ^ L"
    using frac_digits_value [OF rb dvr] by (simp add: fd_def L_def nat_of_digits_def)
  have "nat_of_digits (I @ fd) * b = (a div b) * b * 10 ^ L + nat_of_digits fd * b"
    by (simp add: nat_of_digits_append dI(3) L_def algebra_simps)
  also have "\<dots> = ((a div b) * b + r) * 10 ^ L"
    by (simp only: vfd add_mult_distrib)
  also have "(a div b) * b + r = a" by (simp add: r_def)
  finally have N: "nat_of_digits (I @ fd) * b = a * 10 ^ L" .
  have "(of_nat (nat_of_digits (I @ fd) * b) :: rat) = of_nat (a * 10 ^ L)"
    by (simp only: N)
  then have "(of_nat (nat_of_digits (I @ fd)) :: rat) * of_nat b = of_nat a * 10 ^ L"
    by simp
  then have frac: "(of_nat (nat_of_digits (I @ fd)) :: rat) / 10 ^ L = of_nat a / of_nat b"
    using b0 by (simp add: frac_eq_eq)
  have q: "q = of_int n / of_int d" using nd by (rule quotient_of_div)
  have d: "(of_int d :: rat) = of_nat b" using pos by (simp add: b_def)
  have n: "(of_int n :: rat) = (if n < 0 then - 1 else 1) * of_nat a"
    by (simp add: a_def)
  have "q = (if n < 0 then - 1 else 1) * (of_nat (nat_of_digits (I @ fd)) / 10 ^ L)"
    unfolding frac q d n by simp
  also have "\<dots> = scale10 ((if n < 0 then - 1 else 1) * int (nat_of_digits (I @ fd)))
      (- int (length fd))"
    by (simp add: scale10_neg L_def)
  finally have val: "q = scale10 ((if n < 0 then - 1 else 1) * int (nat_of_digits (I @ fd)))
      (- int (length fd))" .
  show ?thesis using dI(1,2) dfd sh val by blast
qed

lemma show_rat_parse:
  assumes "q = of_int m / 10 ^ k"
  shows "parse_number (show_rat q) = Some (Num q)"
proof -
  obtain neg I fd where s: "I \<noteq> []" "\<forall>c \<in> set I. is_digit c" "\<forall>c \<in> set fd. is_digit c"
    "show_rat q = (if neg then [CHR ''-''] else []) @ I @
       (if fd = [] then [] else CHR ''.'' # fd)"
    "q = scale10 ((if neg then - 1 else 1) * int (nat_of_digits (I @ fd))) (- int (length fd))"
    using show_rat_shape [OF assms] by blast
  show ?thesis
    unfolding s(4) using parse_plain [OF s(1,2,3), of neg] s(5) by simp
qed

lemma show_rat_plain:
  assumes "q = of_int m / 10 ^ k"
  shows "show_rat q \<noteq> []" and "\<forall>c \<in> set (show_rat q). plain_char c"
proof -
  obtain neg I fd where s: "I \<noteq> []" "\<forall>c \<in> set I. is_digit c" "\<forall>c \<in> set fd. is_digit c"
    "show_rat q = (if neg then [CHR ''-''] else []) @ I @
       (if fd = [] then [] else CHR ''.'' # fd)"
    using show_rat_shape [OF assms] by blast
  show "show_rat q \<noteq> []" unfolding s(4) using s(1) by simp
  show "\<forall>c \<in> set (show_rat q). plain_char c"
    unfolding s(4) using s(2,3) by (auto simp: plain_char_def)
qed

lemma scale10_decimal: "\<exists>m' k. scale10 m e = of_int m' / 10 ^ k"
proof (cases "0 \<le> e")
  case True
  then have "scale10 m e = of_int (m * 10 ^ nat e) / 10 ^ 0" by (simp add: scale10_def)
  then show ?thesis by blast
next
  case False
  then have "scale10 m e = of_int m / 10 ^ nat (- e)" by (simp add: scale10_def)
  then show ?thesis by blast
qed

lemma parse_number_decimal:
  assumes "parse_number s = Some (Num q)"
  shows "\<exists>m k. q = of_int m / 10 ^ k"
proof -
  obtain m e where "q = scale10 m e"
    using assms
    by (auto simp: parse_number_def Let_def split: if_splits option.splits prod.splits)
  then show ?thesis using scale10_decimal by simp
qed

lemma price_cell_Missing: "price_cell Missing = Missing"
  by (simp add: price_defs parse_defs)

lemma price_cell_decimal:
  assumes "q = of_int m / 10 ^ k"
  shows "price_cell (Num q) = Num q"
proof -
  have "price_text (Num q) = show_rat q"
    using show_rat_plain [OF assms] by (simp add: price_text_def price_text_plain)
  then show ?thesis using show_rat_parse [OF assms] by (simp add: price_cell_def)
qed

lemma price_cell_range:
  "price_cell x = Missing \<or> (\<exists>q m k. price_cell x = Num q \<and> q = of_int m / 10 ^ k)"
proof (cases "parse_number (price_text x)")
  case None
  then show ?thesis by (simp add: price_cell_def)
next
  case (Some v)
  then have pc: "price_cell x = v" by (simp add: price_cell_def)
  show ?thesis
  proof (cases v)
    case (Num q)
    then show ?thesis using parse_number_decimal [of "price_text x" q] Some pc by auto
  next
    case Missing
    then show ?thesis using pc by simp
  next
    case (Str s)
    then show ?thesis using parse_number_cases [OF Some] by simp
  next
    case (Stamp t)
    then show ?thesis using parse_number_cases [OF Some] by simp
  qed
qed

lemma price_cell_idem: "price_cell (price_cell x) = price_cell x"
  using price_cell_range [of x] price_cell_Missing price_cell_decimal by auto

section \<open>The price normalizer\<close>

lemma columns_standardize_column:
  "c \<in> set (columns t) \<Longrightarrow> columns (standardize_column c t) = columns t"
  by (simp add: standardize_column_def Let_def columns_set_col)

lemma wf_standardize_column: "wf_table t \<Longrightarrow> wf_table (standardize_column c t)"
  by (simp add: standardize_column_def Let_def wf_set_col)

lemma length_rows_standardize_column:
  "length (rows (standardize_column c t)) = length (rows t)"
  by (simp add: standardize_column_def Let_def length_rows_set_col length_get_col
      to_numeric_coerce_def)

lemma get_col_standardize_column_same:
  assumes "wf_table t"
  shows "get_col c (standardize_column c t) = map price_cell (get_col c t)"
proof -
  let ?texts = "set_col c (map (\<lambda>v. Str (price_text v)) (get_col c t)) t"
  have wf: "wf_table ?texts" using assms by (rule wf_set_col)
  have len: "length (rows ?texts) = length (rows t)"
    by (simp add: length_rows_set_col length_get_col)
  have texts: "get_col c ?texts = map (\<lambda>v. Str (price_text v)) (get_col c t)"
    using assms by (simp add: get_col_set_col_same length_get_col)
  have "get_col c (set_col c (to_numeric_coerce (get_col c ?texts)) ?texts)
      = to_numeric_coerce (get_col c ?texts)"
    using wf by (simp add: get_col_set_col_same length_get_col to_numeric_coerce_def)
  then show ?thesis
    by (simp add: standardize_column_def Let_def texts to_numeric_coerce_def price_cell_def
        o_def)
qed

lemma get_col_standardize_column_other:
  assumes "wf_table t" and "m \<in> set (columns t)" and "m \<noteq> c"
  shows "get_col m (standardize_column c t) = get_col m t"
proof -
  let ?texts = "set_col c (map (\<lambda>v. Str (price_text v)) (get_col c t)) t"
  have wf: "wf_table ?texts" using assms(1) by (rule wf_set_col)
  have m: "m \<in> set (columns ?texts)" using assms(2) by (simp add: columns_set_col)
  have len: "length (rows ?texts) = length (rows t)"
    by (simp add: length_rows_set_col length_get_col)
  have "get_col m (set_col c (to_numeric_coerce (get_col c ?texts)) ?texts) = get_col m ?texts"
    using wf m assms(3)
    by (simp add: get_col_set_col_other length_get_col to_numeric_coerce_def)
  also have "\<dots> = get_col m t"
    using assms by (simp add: get_col_set_col_other length_get_col)
  finally show ?thesis by (simp add: standardize_column_def Let_def)
qed

lemma standardize_step_facts:
  assumes "wf_table t"
  shows "wf_table (standardize_step p t)" and "columns (standardize_step p t) = columns t"
    and "length (rows (standardize_step p t)) = length (rows t)"
    and "c \<in> set (columns t) \<Longrightarrow>
         get_col c (standardize_step p t) = (if c = p then map price_cell (get_col c t) else get_col c t)"
  using assms
  by (auto simp: standardize_step_def wf_standardize_column columns_standardize_column
      length_rows_standardize_column get_col_standardize_column_same
      get_col_standardize_column_other)

text \<open>A candidate named twice is normalized twice, which changes nothing more.\<close>

lemma fold_standardize_step:
  assumes "wf_table t"
  shows "wf_table (fold standardize_step ps t) \<and> columns (fold standardize_step ps t) = columns t \<and>
         length (rows (fold standardize_step ps t)) = length (rows t) \<and>
         (\<forall>c \<in> set (columns t). get_col c (fold standardize_step ps t)
            = (if c \<in> set ps then map price_cell (get_col c t) else get_col c t))"
  using assms
proof (induction ps arbitrary: t)
  case Nil
  then show ?case by simp
next
  case (Cons p ps)
  have wf: "wf_table (standardize_step p t)" using Cons.prems(1) by (rule standardize_step_facts)
  note ih = Cons.IH [OF wf]
  have step: "\<And>c. c \<in> set (columns t) \<Longrightarrow> get_col c (standardize_step p t)
      = (if c = p then map price_cell (get_col c t) else get_col c t)"
    using standardize_step_facts(4) [OF Cons.prems(1)] .
  have cols: "columns (standardize_step p t) = columns t"
    and len: "length (rows (standardize_step p t)) = length (rows t)"
    using standardize_step_facts(2,3) [OF Cons.prems(1)] by auto
  have twice: "map price_cell (map price_cell vs) = map price_cell vs" for vs
    by (simp add: price_cell_idem)
  have "get_col c (fold standardize_step (p # ps) t)
      = (if c \<in> set (p # ps) then map price_cell (get_col c t) else get_col c t)"
    if c: "c \<in> set (columns t)" for c
  proof (cases "c = p")
    case True
    then show ?thesis using ih c cols step [OF c] twice by simp
  next
    case False
    then show ?thesis using ih c cols step [OF c] by simp
  qed
  then show ?case using ih cols len by simp
qed

lemma standardize_prices_facts:
  assumes "wf_table t"
  shows "wf_table (standardize_prices t pc)"
    and "columns (standardize_prices t pc) = columns t"
    and "length (rows (standardize_prices t pc)) = length (rows t)"
    and "c \<in> set (columns t) \<Longrightarrow> get_col c (standardize_prices t pc)
           = (if c \<in> set (candidate_columns pc) then map price_cell (get_col c t)
              else get_col c t)"
  using fold_standardize_step [OF assms] by (simp_all add: standardize_prices_def)

lemma price_cell_dollars: "price_cell (Str ''$1,200.50'') = Num (2401 / 2)"
  by (simp add: price_defs parse_defs)

lemma price_cell_not_available: "price_cell (Str ''n/a'') = Missing"
  by (simp add: price_defs parse_defs)

text \<open>A no-break space before the euro sign is white space for \<^verbatim>\<open>str.strip()\<close>.\<close>

lemma price_cell_no_break_space:
  "price_cell (Str (''100'' @ [CHR 0xC2, CHR 0xA0] @ euro)) = Num 100"
  by (simp add: price_defs parse_defs)

text \<open>
  C7. In a well-formed frame, every candidate price column that is present is replaced
  by the column of its values turned to text, without \<^verbatim>\<open>$\<close>, the euro sign and commas,
  stripped of white space and read as numbers, a text that is no number giving the
  missing value. The text \<^verbatim>\<open>$1,200.50\<close> gives 1200.5 and \<^verbatim>\<open>n/a\<close> gives the missing
  value.
\<close>

theorem standardize_prices_candidate_column:
  "wf_table t \<Longrightarrow> c \<in> set (candidate_columns pc) \<Longrightarrow> c \<in> set (columns t) \<Longrightarrow>
     get_col c (standardize_prices t pc) =
       map (\<lambda>v. case parse_number (str_strip (str_replace '','' [] (str_replace euro []
                       (str_replace ''$'' [] (astype_str v))))) of
                   Some n \<Rightarrow> n
                 | None \<Rightarrow> Missing) (get_col c t) \<and>
     (v = Str ''$1,200.50'' \<and> v \<in> set (get_col c t) \<longrightarrow>
        Num (2401 / 2) \<in> set (get_col c (standardize_prices t pc))) \<and>
     (v = Str ''n/a'' \<and> v \<in> set (get_col c t) \<longrightarrow>
        Missing \<in> set (get_col c (standardize_prices t pc)))"
proof -
  assume a: "wf_table t" "c \<in> set (candidate_columns pc)" "c \<in> set (columns t)"
  have col: "get_col c (standardize_prices t pc) = map price_cell (get_col c t)"
    using standardize_prices_facts(4) [OF a(1) a(3)] a(2) by simp
  have unfold: "price_cell = (\<lambda>v. case parse_number (str_strip (str_replace '','' []
      (str_replace euro [] (str_replace ''$'' [] (astype_str v))))) of
        Some n \<Rightarrow> n | None \<Rightarrow> Missing)"
    by (rule ext) (simp add: price_cell_def price_text_def)
  have d: "v = Str ''$1,200.50'' \<and> v \<in> set (get_col c t) \<longrightarrow>
      Num (2401 / 2) \<in> set (get_col c (standardize_prices t pc))"
    unfolding col using price_cell_dollars by force
  have n: "v = Str ''n/a'' \<and> v \<in> set (get_col c t) \<longrightarrow>
      Missing \<in> set (get_col c (standardize_prices t pc))"
    unfolding col using price_cell_not_available by force
  show ?thesis using col d n unfolding unfold by blast
qed

theorem standardize_prices_candidate_column_witness:
  "wf_table \<lparr>columns = [''id'', ''price''],
             rows = [[Num 1, Str ''$1,200.50''], [Num 2, Str ''n/a''],
                     [Num 3, Str (''100'' @ [CHR 0xC2, CHR 0xA0] @ euro)]]\<rparr> \<and>
   ''price'' \<in> set (candidate_columns None) \<and>
   get_col ''price'' (standardize_prices \<lparr>columns = [''id'', ''price''],
       rows = [[Num 1, Str ''$1,200.50''], [Num 2, Str ''n/a''],
               [Num 3, Str (''100'' @ [CHR 0xC2, CHR 0xA0] @ euro)]]\<rparr> None)
     = [Num (2401 / 2), Missing, Num 100]"
proof -
  let ?t = "\<lparr>columns = [''id'', ''price''],
             rows = [[Num 1, Str ''$1,200.50''], [Num 2, Str ''n/a''],
                     [Num 3, Str (''100'' @ [CHR 0xC2, CHR 0xA0] @ euro)]]\<rparr>"
  have w: "wf_table ?t" by (simp add: wf_table_def)
  have p: "''price'' \<in> set (candidate_columns None)"
    by (simp add: candidate_columns_def default_price_columns_def)
  have c: "''price'' \<in> set (columns ?t)" by simp
  have g: "get_col ''price'' ?t
      = [Str ''$1,200.50'', Str ''n/a'', Str (''100'' @ [CHR 0xC2, CHR 0xA0] @ euro)]"
    by (simp add: get_col_def)
  have "get_col ''price'' (standardize_prices ?t None) = [Num (2401 / 2), Missing, Num 100]"
    using standardize_prices_candidate_column [OF w p c, of "Missing"]
    unfolding g by (simp add: euro_def str_strip_def is_space_def wide_spaces_def parse_defs)
  then show ?thesis using w p by blast
qed

section \<open>The column enricher\<close>

lemma add_basic_columns_unfold:
  "add_basic_columns df =
     (if ''availability_365'' \<in> set (columns df)
      then set_col ''ocupacion_estimada''
             (map minus_from_365 (to_numeric_coerce (get_col ''availability_365'' (with_precio_noche df))))
             (with_precio_noche df)
      else with_precio_noche df)"
  by (simp add: add_basic_columns_def with_precio_noche_def Let_def columns_set_col)

lemma with_precio_noche_facts:
  assumes "wf_table t"
  shows "wf_table (with_precio_noche t)"
    and "length (rows (with_precio_noche t)) = length (rows t)"
    and "set (columns t) \<subseteq> set (columns (with_precio_noche t))"
    and "''price'' \<in> set (columns t) \<Longrightarrow>
           get_col ''precio_noche'' (with_precio_noche t) = map numeric_cell (get_col ''price'' t)"
    and "m \<in> set (columns t) \<Longrightarrow> m \<noteq> ''precio_noche'' \<Longrightarrow> get_col m (with_precio_noche t) = get_col m t"
    and "''price'' \<notin> set (columns t) \<Longrightarrow> with_precio_noche t = t"
  using assms
  by (auto simp: with_precio_noche_def wf_set_col length_rows_set_col length_get_col to_numeric_coerce_def
      columns_set_col get_col_set_col_same get_col_set_col_other)

lemma add_basic_columns_facts:
  assumes "wf_table t"
  shows "wf_table (add_basic_columns t)"
    and "length (rows (add_basic_columns t)) = length (rows t)"
    and "set (columns t) \<subseteq> set (columns (add_basic_columns t))"
    and "''price'' \<in> set (columns t) \<Longrightarrow>
           get_col ''precio_noche'' (add_basic_columns t) = map numeric_cell (get_col ''price'' t)"
    and "''availability_365'' \<in> set (columns t) \<Longrightarrow>
           get_col ''ocupacion_estimada'' (add_basic_columns t)
             = map (\<lambda>v. minus_from_365 (numeric_cell v)) (get_col ''availability_365'' t)"
    and "m \<in> set (columns t) \<Longrightarrow> m \<noteq> ''precio_noche'' \<Longrightarrow> m \<noteq> ''ocupacion_estimada'' \<Longrightarrow>
           get_col m (add_basic_columns t) = get_col m t"
proof -
  note p = with_precio_noche_facts [OF assms]
  show "wf_table (add_basic_columns t)"
    by (simp add: add_basic_columns_unfold wf_set_col p(1))
  show "length (rows (add_basic_columns t)) = length (rows t)"
    by (simp add: add_basic_columns_unfold length_rows_set_col length_get_col
        to_numeric_coerce_def p(2))
  show "set (columns t) \<subseteq> set (columns (add_basic_columns t))"
    using p(3) by (auto simp: add_basic_columns_unfold columns_set_col)
  have pn: "''precio_noche'' \<in> set (columns (with_precio_noche t))" if "''price'' \<in> set (columns t)"
    using that by (simp add: with_precio_noche_def columns_set_col)
  show "get_col ''precio_noche'' (add_basic_columns t) = map numeric_cell (get_col ''price'' t)"
    if "''price'' \<in> set (columns t)"
    using that p(1) p(2) p(4) pn
    by (simp add: add_basic_columns_unfold get_col_set_col_other length_get_col
        to_numeric_coerce_def)
  show "get_col ''ocupacion_estimada'' (add_basic_columns t)
      = map (\<lambda>v. minus_from_365 (numeric_cell v)) (get_col ''availability_365'' t)"
    if "''availability_365'' \<in> set (columns t)"
    using that p(1) p(2) p(5) [of "''availability_365''"]
    by (simp add: add_basic_columns_unfold get_col_set_col_same length_get_col
        to_numeric_coerce_def o_def)
  show "get_col m (add_basic_columns t) = get_col m t"
    if "m \<in> set (columns t)" "m \<noteq> ''precio_noche''" "m \<noteq> ''ocupacion_estimada''"
    using that p(1) p(2) p(3) p(5) [of m]
    by (auto simp: add_basic_columns_unfold get_col_set_col_other length_get_col
        to_numeric_coerce_def)
qed


lemma add_basic_columns_skip:
  "''price'' \<notin> set (columns t) \<Longrightarrow> ''availability_365'' \<notin> set (columns t) \<Longrightarrow>
     add_basic_columns t = t"
  by (simp add: add_basic_columns_def with_precio_noche_def)

lemma columns_add_basic_columns:
  "set (columns (add_basic_columns t)) = set (columns t) \<union>
     (if ''price'' \<in> set (columns t) then {''precio_noche''} else {}) \<union>
     (if ''availability_365'' \<in> set (columns t) then {''ocupacion_estimada''} else {})"
  by (auto simp: add_basic_columns_def with_precio_noche_def Let_def columns_set_col
      split: if_splits)

lemma minus_from_365_case:
  "minus_from_365 v = (case v of Num q \<Rightarrow> Num (365 - q) | _ \<Rightarrow> Missing)"
  by (cases v) simp_all

text \<open>
  C8. On a well-formed frame, \<open>add_basic_columns\<close> sets \<^verbatim>\<open>precio_noche\<close> to the numeric
  reading of \<^verbatim>\<open>price\<close> when that column exists, and \<^verbatim>\<open>ocupacion_estimada\<close> to 365 minus
  the numeric reading of \<^verbatim>\<open>availability_365\<close> when that one exists, a missing reading
  giving a missing occupancy; an availability of 40 gives 325. With neither source column
  the frame comes back as it is, and no other column is added in any case.
\<close>

theorem add_basic_columns_derives:
  "wf_table t \<Longrightarrow>
     (''price'' \<in> set (columns t) \<longrightarrow>
        get_col ''precio_noche'' (add_basic_columns t)
          = to_numeric_coerce (get_col ''price'' t)) \<and>
     (''availability_365'' \<in> set (columns t) \<longrightarrow>
        get_col ''ocupacion_estimada'' (add_basic_columns t)
          = map (\<lambda>v. case numeric_cell v of Num q \<Rightarrow> Num (365 - q) | _ \<Rightarrow> Missing)
              (get_col ''availability_365'' t) \<and>
        (\<forall>i < length (rows t). get_col ''availability_365'' t ! i = Num 40 \<longrightarrow>
           get_col ''ocupacion_estimada'' (add_basic_columns t) ! i = Num 325)) \<and>
     (''price'' \<notin> set (columns t) \<longrightarrow> ''availability_365'' \<notin> set (columns t) \<longrightarrow>
        add_basic_columns t = t) \<and>
     set (columns (add_basic_columns t)) = set (columns t) \<union>
       (if ''price'' \<in> set (columns t) then {''precio_noche''} else {}) \<union>
       (if ''availability_365'' \<in> set (columns t) then {''ocupacion_estimada''} else {})"
proof -
  assume wf: "wf_table t"
  note f = add_basic_columns_facts [OF wf]
  have price: "''price'' \<in> set (columns t) \<longrightarrow>
      get_col ''precio_noche'' (add_basic_columns t) = to_numeric_coerce (get_col ''price'' t)"
    using f(4) by (simp add: to_numeric_coerce_def)
  have occ: "get_col ''ocupacion_estimada'' (add_basic_columns t)
      = map (\<lambda>v. case numeric_cell v of Num q \<Rightarrow> Num (365 - q) | _ \<Rightarrow> Missing)
          (get_col ''availability_365'' t)"
    if "''availability_365'' \<in> set (columns t)"
    using f(5) [OF that] by (simp add: minus_from_365_case)
  have forty: "\<forall>i < length (rows t). get_col ''availability_365'' t ! i = Num 40 \<longrightarrow>
      get_col ''ocupacion_estimada'' (add_basic_columns t) ! i = Num 325"
    if "''availability_365'' \<in> set (columns t)"
    using occ [OF that] by (simp add: length_get_col)
  show ?thesis
    using price occ forty add_basic_columns_skip [of t] columns_add_basic_columns [of t]
    by blast
qed

theorem add_basic_columns_derives_witness:
  "wf_table \<lparr>columns = [''id'', ''availability_365''],
             rows = [[Num 1, Num 40], [Num 2, Missing]]\<rparr> \<and>
   get_col ''ocupacion_estimada'' (add_basic_columns \<lparr>columns = [''id'', ''availability_365''],
       rows = [[Num 1, Num 40], [Num 2, Missing]]\<rparr>) = [Num 325, Missing]"
proof -
  let ?t = "\<lparr>columns = [''id'', ''availability_365''],
             rows = [[Num 1, Num 40], [Num 2, Missing]]\<rparr>"
  have w: "wf_table ?t" by (simp add: wf_table_def)
  have g: "get_col ''availability_365'' ?t = [Num 40, Missing]"
    by (simp add: get_col_def)
  have "get_col ''ocupacion_estimada'' (add_basic_columns ?t) = [Num 325, Missing]"
    using add_basic_columns_derives [OF w] unfolding g by simp
  then show ?thesis using w by blast
qed

section \<open>The type normalizer\<close>

lemma length_to_datetime: "length (to_datetime dp vs) = length vs"
  by (simp add: to_datetime_def)

lemma length_to_numeric_ignore: "length (to_numeric_ignore vs) = length vs"
  by (simp add: to_numeric_ignore_def)

lemma length_normalized_values: "length (normalized_values dp c vs) = length vs"
  by (simp add: normalized_values_def Let_def length_to_datetime length_to_numeric_ignore)

lemma normalize_column_facts:
  assumes "wf_table t"
  shows "wf_table (normalize_column dp c t)"
    and "length (rows (normalize_column dp c t)) = length (rows t)"
    and "c \<in> set (columns t) \<Longrightarrow> columns (normalize_column dp c t) = columns t"
    and "c \<in> set (columns t) \<Longrightarrow>
         get_col c (normalize_column dp c t) = normalized_values dp c (get_col c t)"
    and "c \<in> set (columns t) \<Longrightarrow> m \<in> set (columns t) \<Longrightarrow> m \<noteq> c \<Longrightarrow>
         get_col m (normalize_column dp c t) = get_col m t"
proof -
  define dated where "dated = (if date_named c
             then set_col c (to_datetime dp (get_col c t)) t else t)"
  have wfd: "wf_table dated" using assms by (simp add: dated_def wf_set_col)
  have lend: "length (rows dated) = length (rows t)"
    by (simp add: dated_def length_rows_set_col length_to_datetime length_get_col)
  have unfold: "normalize_column dp c t =
      (if is_object (get_col c dated)
       then set_col c (to_numeric_ignore (get_col c dated)) dated else dated)"
    by (simp add: normalize_column_def Let_def dated_def)
  have colsd: "columns dated = columns t" if "c \<in> set (columns t)"
    using that by (simp add: dated_def columns_set_col)
  have dc: "get_col c dated =
      (if date_named c
       then to_datetime dp (get_col c t) else get_col c t)"
    using assms by (simp add: dated_def get_col_set_col_same length_to_datetime length_get_col)
  have same: "get_col c (set_col c (to_numeric_ignore (get_col c dated)) dated)
      = to_numeric_ignore (get_col c dated)"
    using wfd by (simp add: get_col_set_col_same length_to_numeric_ignore length_get_col)
  show "wf_table (normalize_column dp c t)"
    unfolding unfold using wfd by (simp add: wf_set_col)
  show "length (rows (normalize_column dp c t)) = length (rows t)"
    unfolding unfold using lend
    by (simp add: length_rows_set_col length_to_numeric_ignore length_get_col)
  show "columns (normalize_column dp c t) = columns t" if "c \<in> set (columns t)"
    unfolding unfold using colsd [OF that] that by (simp add: columns_set_col)
  show "get_col c (normalize_column dp c t) = normalized_values dp c (get_col c t)"
    if "c \<in> set (columns t)"
  proof (cases "is_object (get_col c dated)")
    case True
    then show ?thesis
      unfolding unfold using same by (simp add: normalized_values_def Let_def dc)
  next
    case False
    then show ?thesis
      unfolding unfold by (simp add: normalized_values_def Let_def dc)
  qed
  show "get_col m (normalize_column dp c t) = get_col m t"
    if "c \<in> set (columns t)" "m \<in> set (columns t)" "m \<noteq> c"
  proof -
    have md: "m \<in> set (columns dated)" using that colsd by simp
    have "get_col m dated = get_col m t"
      using assms that
      by (simp add: dated_def get_col_set_col_other length_to_datetime length_get_col)
    then show ?thesis
      unfolding unfold using wfd md that(3)
      by (simp add: get_col_set_col_other length_to_numeric_ignore length_get_col)
  qed
qed

lemma fold_normalize_column:
  assumes "wf_table t" and "distinct cs" and "set cs \<subseteq> set (columns t)"
  shows "wf_table (fold (normalize_column dp) cs t) \<and>
         columns (fold (normalize_column dp) cs t) = columns t \<and>
         length (rows (fold (normalize_column dp) cs t)) = length (rows t) \<and>
         (\<forall>c \<in> set (columns t). get_col c (fold (normalize_column dp) cs t)
            = (if c \<in> set cs then normalized_values dp c (get_col c t) else get_col c t))"
  using assms
proof (induction cs arbitrary: t)
  case Nil
  then show ?case by simp
next
  case (Cons p ps)
  have pin: "p \<in> set (columns t)" using Cons.prems(3) by simp
  note f = normalize_column_facts [OF Cons.prems(1), where dp = dp and c = p]
  have cols: "columns (normalize_column dp p t) = columns t" using f(3) pin by simp
  have d: "distinct ps" and pn: "p \<notin> set ps" using Cons.prems(2) by auto
  have sub: "set ps \<subseteq> set (columns (normalize_column dp p t))"
    using Cons.prems(3) cols by simp
  note ih = Cons.IH [OF f(1) d sub]
  have same: "get_col p (normalize_column dp p t) = normalized_values dp p (get_col p t)"
    using f(4) pin by simp
  have other: "\<And>m. m \<in> set (columns t) \<Longrightarrow> m \<noteq> p \<Longrightarrow>
      get_col m (normalize_column dp p t) = get_col m t"
    using f(5) pin by simp
  have "get_col c (fold (normalize_column dp) (p # ps) t)
      = (if c \<in> set (p # ps) then normalized_values dp c (get_col c t) else get_col c t)"
    if c: "c \<in> set (columns t)" for c
  proof (cases "c = p")
    case True
    then show ?thesis using ih pn c same cols by simp
  next
    case False
    then show ?thesis using ih c other [OF c False] cols by simp
  qed
  then show ?case
    using ih cols f(2) by simp
qed

lemma normalize_types_facts:
  assumes "wf_table t"
  shows "wf_table (normalize_types dp t)"
    and "columns (normalize_types dp t) = columns t"
    and "length (rows (normalize_types dp t)) = length (rows t)"
    and "c \<in> set (columns t) \<Longrightarrow>
         get_col c (normalize_types dp t) = normalized_values dp c (get_col c t)"
proof -
  have d: "distinct (columns t)" using assms by (simp add: wf_table_def)
  note f = fold_normalize_column [OF assms d subset_refl, where dp = dp]
  show "wf_table (normalize_types dp t)" "columns (normalize_types dp t) = columns t"
    "length (rows (normalize_types dp t)) = length (rows t)"
    using f by (simp_all add: normalize_types_def)
  show "get_col c (normalize_types dp t) = normalized_values dp c (get_col c t)"
    if "c \<in> set (columns t)"
    using f that by (simp add: normalize_types_def)
qed

text \<open>
  C10. In a well-formed frame, take a column that holds text and whose label contains
  neither \<^verbatim>\<open>date\<close> nor \<^verbatim>\<open>fecha\<close>. If each of its values can be read as a number,
  \<open>normalize_types\<close> replaces the column by the readings, and the column is numeric. If
  one value cannot be read, the column stays exactly as it was: no value of it is turned
  into a missing one.
\<close>

theorem normalize_types_whole_column:
  "wf_table t \<Longrightarrow> c \<in> set (columns t) \<Longrightarrow>
   \<not> str_contains ''date'' c \<Longrightarrow> \<not> str_contains ''fecha'' c \<Longrightarrow>
   is_object (get_col c t) \<Longrightarrow>
     ((\<forall>v \<in> set (get_col c t). parses v) \<longrightarrow>
        get_col c (normalize_types dp t) = map numeric_cell (get_col c t) \<and>
        numeric_col (get_col c (normalize_types dp t))) \<and>
     ((\<exists>v \<in> set (get_col c t). \<not> parses v) \<longrightarrow>
        get_col c (normalize_types dp t) = get_col c t)"
proof -
  assume a: "wf_table t" "c \<in> set (columns t)" "\<not> str_contains ''date'' c"
    "\<not> str_contains ''fecha'' c" "is_object (get_col c t)"
  have "get_col c (normalize_types dp t) = to_numeric_ignore (get_col c t)"
    using normalize_types_facts(4) [OF a(1,2)] a(3,4,5)
    by (simp add: normalized_values_def date_named_def)
  then show ?thesis
    using numeric_col_numeric_cell [of "get_col c t"] by (auto simp: to_numeric_ignore_def)
qed

theorem normalize_types_whole_column_witness:
  "wf_table \<lparr>columns = [''beds'', ''notes''],
             rows = [[Str ''1'', Str ''2''], [Str ''2.5'', Str ''none'']]\<rparr> \<and>
   get_col ''beds'' (normalize_types (\<lambda>col s. None) \<lparr>columns = [''beds'', ''notes''],
       rows = [[Str ''1'', Str ''2''], [Str ''2.5'', Str ''none'']]\<rparr>) = [Num 1, Num (5 / 2)] \<and>
   get_col ''notes'' (normalize_types (\<lambda>col s. None) \<lparr>columns = [''beds'', ''notes''],
       rows = [[Str ''1'', Str ''2''], [Str ''2.5'', Str ''none'']]\<rparr>) = [Str ''2'', Str ''none'']"
proof -
  let ?t = "\<lparr>columns = [''beds'', ''notes''],
             rows = [[Str ''1'', Str ''2''], [Str ''2.5'', Str ''none'']]\<rparr>"
  have w: "wf_table ?t" by (simp add: wf_table_def)
  have gb: "get_col ''beds'' ?t = [Str ''1'', Str ''2.5'']"
    and gn: "get_col ''notes'' ?t = [Str ''2'', Str ''none'']"
    by (simp_all add: get_col_def)
  have ob: "is_object (get_col ''beds'' ?t)" and on: "is_object (get_col ''notes'' ?t)"
    unfolding gb gn by (simp_all add: is_object_def)
  have "get_col ''beds'' (normalize_types (\<lambda>col s. None) ?t) = [Num 1, Num (5 / 2)]"
    using normalize_types_whole_column [OF w _ _ _ ob, of "\<lambda>col s. None"]
    unfolding gb by (simp add: parse_defs)
  moreover have "get_col ''notes'' (normalize_types (\<lambda>col s. None) ?t) = [Str ''2'', Str ''none'']"
    using normalize_types_whole_column [OF w _ _ _ on, of "\<lambda>col s. None"]
    unfolding gn by (simp add: parse_defs)
  ultimately show ?thesis using w by blast
qed

section \<open>Duplicates and equality of frames\<close>









section \<open>Cleaning twice\<close>




















section \<open>Groups and their means\<close>

lemma group_values_zip:
  "map (\<lambda>r. r ! mi) (filter (\<lambda>r. r ! ki = k) rs)
     = map snd (filter (\<lambda>p. fst p = k) (zip (map (\<lambda>r. r ! ki) rs) (map (\<lambda>r. r ! mi) rs)))"
  by (induction rs) auto

lemma filter_filter_key:
  "k \<noteq> Missing \<Longrightarrow>
     filter (\<lambda>r. r ! ki = k) (filter (\<lambda>r. r ! ki \<noteq> Missing) rs) = filter (\<lambda>r. r ! ki = k) rs"
  by (induction rs) auto

lemma group_keys_facts:
  "distinct (group_keys key t)" "set (group_keys key t) = set (get_col key t) - {Missing}"
  by (auto simp: group_keys_def)

lemma groupby_mean_rows:
  assumes "numeric_col (get_col metric t)"
  shows "groupby_mean key metric out t =
     Inr \<lparr>columns = [key, out],
          rows = map (\<lambda>k. [k, mean_cell (map snd (filter (\<lambda>p. fst p = k)
                    (zip (get_col key t) (get_col metric t))))]) (group_keys key t)\<rparr>"
proof -
  let ?ki = "index_of key (columns t)" and ?mi = "index_of metric (columns t)"
  let ?rs = "filter (\<lambda>r. r ! ?ki \<noteq> Missing) (rows t)"
  have keys: "map (\<lambda>r. r ! ?ki) ?rs = filter (\<lambda>k. k \<noteq> Missing) (get_col key t)"
    by (simp add: get_col_def filter_map o_def)
  have "mean_cell (map (\<lambda>r. r ! ?mi) (filter (\<lambda>r. r ! ?ki = k) ?rs))
      = mean_cell (map snd (filter (\<lambda>p. fst p = k) (zip (get_col key t) (get_col metric t))))"
    if "k \<in> set (group_keys key t)" for k
  proof -
    have "k \<noteq> Missing" using that by (simp add: group_keys_facts)
    then have "filter (\<lambda>r. r ! ?ki = k) ?rs = filter (\<lambda>r. r ! ?ki = k) (rows t)"
      by (rule filter_filter_key)
    then show ?thesis
      by (simp only: group_values_zip get_col_def)
  qed
  then show ?thesis
    using assms by (simp add: groupby_mean_def Let_def keys group_keys_def)
qed

lemma prepare_reviews_example: "prepare_reviews \<lparr>columns = [''listing_id'', ''rating''],
          rows = [[Num 1, Num 4], [Num 1, Num 5], [Num 2, Num 3]]\<rparr>
   = Inr \<lparr>columns = [''listing_id'', ''rating''], rows = [[Num 1, Num (9 / 2)], [Num 2, Num 3]]\<rparr>"
  by (simp add: prepare_reviews_def groupby_mean_def get_col_def numeric_col_def mean_cell_def)

text \<open>
  C4. \<open>prepare_reviews\<close> returns the empty frame when the reviews have no
  \<^verbatim>\<open>listing_id\<close> column or no \<^verbatim>\<open>rating\<close> column. Otherwise, the ratings being numbers
  or missing, it returns the columns \<^verbatim>\<open>listing_id\<close> and \<^verbatim>\<open>rating\<close> with one row for each
  listing id that occurs in the reviews, each id once, and in that row the mean of the
  ratings of the reviews with that id (missing ratings skipped). The reviews
  (1, 4), (1, 5), (2, 3) give (1, 4.5), (2, 3).
\<close>

theorem prepare_reviews_summary:
  "(''listing_id'' \<notin> set (columns t) \<or> ''rating'' \<notin> set (columns t) \<longrightarrow>
      prepare_reviews t = Inr empty_frame) \<and>
   (''listing_id'' \<in> set (columns t) \<and> ''rating'' \<in> set (columns t) \<and>
    numeric_col (get_col ''rating'' t) \<longrightarrow>
      (\<exists>ks. distinct ks \<and> set ks = set (get_col ''listing_id'' t) - {Missing} \<and>
         prepare_reviews t =
           Inr \<lparr>columns = [''listing_id'', ''rating''],
                rows = map (\<lambda>k. [k, mean_cell (map snd (filter (\<lambda>p. fst p = k)
                         (zip (get_col ''listing_id'' t) (get_col ''rating'' t))))]) ks\<rparr>)) \<and>
   prepare_reviews \<lparr>columns = [''listing_id'', ''rating''],
       rows = [[Num 1, Num 4], [Num 1, Num 5], [Num 2, Num 3]]\<rparr>
     = Inr \<lparr>columns = [''listing_id'', ''rating''],
            rows = [[Num 1, Num (9 / 2)], [Num 2, Num 3]]\<rparr>"
proof -
  have none: "''listing_id'' \<notin> set (columns t) \<or> ''rating'' \<notin> set (columns t) \<longrightarrow>
      prepare_reviews t = Inr empty_frame"
    by (simp add: prepare_reviews_def)
  have some: "\<exists>ks. distinct ks \<and> set ks = set (get_col ''listing_id'' t) - {Missing} \<and>
      prepare_reviews t =
        Inr \<lparr>columns = [''listing_id'', ''rating''],
             rows = map (\<lambda>k. [k, mean_cell (map snd (filter (\<lambda>p. fst p = k)
                      (zip (get_col ''listing_id'' t) (get_col ''rating'' t))))]) ks\<rparr>"
    if "''listing_id'' \<in> set (columns t)" "''rating'' \<in> set (columns t)"
      "numeric_col (get_col ''rating'' t)"
  proof -
    have "prepare_reviews t = groupby_mean ''listing_id'' ''rating'' ''rating'' t"
      using that(1,2) by (simp add: prepare_reviews_def)
    then have "distinct (group_keys ''listing_id'' t) \<and>
        set (group_keys ''listing_id'' t) = set (get_col ''listing_id'' t) - {Missing} \<and>
        prepare_reviews t =
          Inr \<lparr>columns = [''listing_id'', ''rating''],
               rows = map (\<lambda>k. [k, mean_cell (map snd (filter (\<lambda>p. fst p = k)
                        (zip (get_col ''listing_id'' t) (get_col ''rating'' t))))])
                      (group_keys ''listing_id'' t)\<rparr>"
      using groupby_mean_rows [OF that(3)] group_keys_facts [of "''listing_id''" t]
      by simp
    then show ?thesis by (rule exI)
  qed
  show ?thesis
  proof (intro conjI)
    show "''listing_id'' \<notin> set (columns t) \<or> ''rating'' \<notin> set (columns t) \<longrightarrow>
        prepare_reviews t = Inr empty_frame"
      by (rule none)
    show "''listing_id'' \<in> set (columns t) \<and> ''rating'' \<in> set (columns t) \<and>
        numeric_col (get_col ''rating'' t) \<longrightarrow>
        (\<exists>ks. distinct ks \<and> set ks = set (get_col ''listing_id'' t) - {Missing} \<and>
           prepare_reviews t =
             Inr \<lparr>columns = [''listing_id'', ''rating''],
                  rows = map (\<lambda>k. [k, mean_cell (map snd (filter (\<lambda>p. fst p = k)
                           (zip (get_col ''listing_id'' t) (get_col ''rating'' t))))]) ks\<rparr>)"
      using some by (intro impI) (elim conjE)
    show "prepare_reviews \<lparr>columns = [''listing_id'', ''rating''],
        rows = [[Num 1, Num 4], [Num 1, Num 5], [Num 2, Num 3]]\<rparr>
      = Inr \<lparr>columns = [''listing_id'', ''rating''],
             rows = [[Num 1, Num (9 / 2)], [Num 2, Num 3]]\<rparr>"
      by (rule prepare_reviews_example)
  qed
qed

theorem prepare_reviews_summary_witness:
  "''listing_id'' \<in> set (columns \<lparr>columns = [''listing_id'', ''rating''],
       rows = [[Num 7, Num 2], [Missing, Num 5], [Num 7, Missing], [Num 3, Missing]]\<rparr>) \<and>
   ''rating'' \<in> set (columns \<lparr>columns = [''listing_id'', ''rating''],
       rows = [[Num 7, Num 2], [Missing, Num 5], [Num 7, Missing], [Num 3, Missing]]\<rparr>) \<and>
   numeric_col (get_col ''rating'' \<lparr>columns = [''listing_id'', ''rating''],
       rows = [[Num 7, Num 2], [Missing, Num 5], [Num 7, Missing], [Num 3, Missing]]\<rparr>) \<and>
   (\<exists>ks. distinct ks \<and> set ks = {Num 7, Num 3} \<and>
      prepare_reviews \<lparr>columns = [''listing_id'', ''rating''],
          rows = [[Num 7, Num 2], [Missing, Num 5], [Num 7, Missing], [Num 3, Missing]]\<rparr>
        = Inr \<lparr>columns = [''listing_id'', ''rating''],
               rows = map (\<lambda>k. [k, if k = Num 7 then Num 2 else Missing]) ks\<rparr>)"
proof -
  let ?t = "\<lparr>columns = [''listing_id'', ''rating''],
       rows = [[Num 7, Num 2], [Missing, Num 5], [Num 7, Missing], [Num 3, Missing]]\<rparr>"
  have l: "''listing_id'' \<in> set (columns ?t)" and r: "''rating'' \<in> set (columns ?t)"
    by simp_all
  have gl: "get_col ''listing_id'' ?t = [Num 7, Missing, Num 7, Num 3]"
    and gr: "get_col ''rating'' ?t = [Num 2, Num 5, Missing, Missing]"
    by (simp_all add: get_col_def)
  have n: "numeric_col (get_col ''rating'' ?t)"
    unfolding gr by (simp add: numeric_col_def)
  have s: "set (get_col ''listing_id'' ?t) - {Missing} = {Num 7, Num 3}"
    unfolding gl by auto
  obtain ks where ks: "distinct ks" "set ks = {Num 7, Num 3}"
    "prepare_reviews ?t =
       Inr \<lparr>columns = [''listing_id'', ''rating''],
            rows = map (\<lambda>k. [k, mean_cell (map snd (filter (\<lambda>p. fst p = k)
                     (zip (get_col ''listing_id'' ?t) (get_col ''rating'' ?t))))]) ks\<rparr>"
    using prepare_reviews_summary [of ?t] l r n unfolding s by blast
  have "map (\<lambda>k. [k, mean_cell (map snd (filter (\<lambda>p. fst p = k)
            (zip (get_col ''listing_id'' ?t) (get_col ''rating'' ?t))))]) ks
      = map (\<lambda>k. [k, if k = Num 7 then Num 2 else Missing]) ks"
    unfolding gl gr using ks(2) by (auto simp: mean_cell_def)
  then have "distinct ks \<and> set ks = {Num 7, Num 3} \<and>
      prepare_reviews ?t = Inr \<lparr>columns = [''listing_id'', ''rating''],
               rows = map (\<lambda>k. [k, if k = Num 7 then Num 2 else Missing]) ks\<rparr>"
    using ks by simp
  then have "\<exists>ks. distinct ks \<and> set ks = {Num 7, Num 3} \<and>
      prepare_reviews ?t = Inr \<lparr>columns = [''listing_id'', ''rating''],
               rows = map (\<lambda>k. [k, if k = Num 7 then Num 2 else Missing]) ks\<rparr>"
    by (rule exI)
  then show ?thesis using l r n by (intro conjI)
qed

section \<open>Means by area\<close>

lemma dropna_pairs:
  "filter (\<lambda>r. Missing \<notin> set r) (map (\<lambda>r. [r ! li, r ! mi]) rs)
     = map (\<lambda>p. [fst p, snd p])
         (filter (\<lambda>p. fst p \<noteq> Missing \<and> snd p \<noteq> Missing)
            (zip (map (\<lambda>r. r ! li) rs) (map (\<lambda>r. r ! mi) rs)))"
  by (induction rs) auto

lemma dropna_select_cols:
  assumes "level \<in> set (columns t)" and "metric \<in> set (columns t)"
  shows "\<exists>picked. select_cols [level, metric] t = Inr picked \<and>
     dropna picked = \<lparr>columns = [level, metric],
                      rows = map (\<lambda>p. [fst p, snd p]) (complete_pairs level metric t)\<rparr>"
  using assms
  by (simp add: select_cols_def dropna_def dropna_pairs complete_pairs_def get_col_def)

lemma mean_cell_Num:
  assumes "qs \<noteq> []"
  shows "mean_cell (map Num qs) = Num (sum_list qs / of_nat (length qs))"
proof -
  have "nums (map Num qs) = qs" by (induction qs) auto
  then show ?thesis using assms by (simp add: mean_cell_def)
qed

lemma numeric_present_Num:
  assumes "numeric_col vs" and "Missing \<notin> set vs"
  shows "\<exists>qs. vs = map Num qs"
  using assms
proof (induction vs)
  case Nil
  then show ?case by simp
next
  case (Cons v vs)
  then obtain qs where qs: "vs = map Num qs" by (auto simp: numeric_col_def)
  from Cons.prems obtain q where "v = Num q"
    by (cases v) (auto simp: numeric_col_def)
  then have "v # vs = map Num (q # qs)" using qs by simp
  then show ?case by (rule exI)
qed

lemma cell_key_Num_le: "cell_key (Num a) \<le> cell_key (Num b) \<longleftrightarrow> a \<le> b"
  by auto

lemma sorted_desc_Num:
  assumes "sorted (rev (map cell_key (map Num ms)))"
  shows "sorted_wrt (\<lambda>a b. b \<le> a) ms"
proof -
  have "(\<lambda>x y. cell_key (Num y) \<le> cell_key (Num x)) = (\<lambda>a b. b \<le> (a :: rat))"
    by (intro ext) (rule cell_key_Num_le)
  then show ?thesis
    using assms by (simp only: sorted_wrt_rev sorted_wrt_map map_map o_def)
qed


lemma sort_values_desc_rows:
  assumes "out \<noteq> level" and "\<forall>a \<in> set ks. M a \<noteq> Missing"
  shows "rows (sort_values_desc out \<lparr>columns = [level, out], rows = map (\<lambda>a. [a, M a]) ks\<rparr>)
     = rev (sort_key (\<lambda>r. cell_key (r ! Suc 0)) (rev (map (\<lambda>a. [a, M a]) ks)))"
proof -
  have i: "index_of out [level, out] = Suc 0" using assms(1) by simp
  have p: "filter (\<lambda>r. r ! Suc 0 \<noteq> Missing) (map (\<lambda>a. [a, M a]) ks) = map (\<lambda>a. [a, M a]) ks"
    using assms(2) by (simp add: filter_map o_def)
  have a: "filter (\<lambda>r. r ! Suc 0 = Missing) (map (\<lambda>a. [a, M a]) ks) = []"
    using assms(2) by (simp add: filter_map o_def)
  show ?thesis
    unfolding sort_values_desc_def Let_def using assms(1) by (simp add: i p a)
qed

lemma sorted_rows_shape:
  fixes M :: "cell \<Rightarrow> cell"
  assumes "distinct ks"
  defines "S \<equiv> rev (sort_key (\<lambda>r. cell_key (r ! Suc 0)) (rev (map (\<lambda>a. [a, M a]) ks)))"
  shows "S = map (\<lambda>a. [a, M a]) (map (\<lambda>r. r ! 0) S)"
    and "distinct (map (\<lambda>r. r ! 0) S)"
    and "set (map (\<lambda>r. r ! 0) S) = set ks"
    and "sorted (rev (map cell_key (map M (map (\<lambda>r. r ! 0) S))))"
proof -
  have setS: "set S = (\<lambda>a. [a, M a]) ` set ks" by (simp add: S_def)
  then have row: "\<forall>r \<in> set S. [r ! 0, M (r ! 0)] = r" by auto
  have snd: "\<forall>r \<in> set S. M (r ! 0) = r ! Suc 0" using setS by auto
  show "S = map (\<lambda>a. [a, M a]) (map (\<lambda>r. r ! 0) S)"
    using row by (simp add: o_def map_idI)
  have "inj_on (\<lambda>a. [a, M a]) (set ks)" by (simp add: inj_on_def)
  then have dS: "distinct S" using assms(1) by (simp add: S_def distinct_map)
  have "inj_on (\<lambda>r. r ! 0) (set S)"
  proof (rule inj_onI)
    fix x y assume x: "x \<in> set S" and y: "y \<in> set S" and eq: "x ! 0 = y ! 0"
    have "x = [x ! 0, M (x ! 0)]" using row x by (simp only:)
    also have "\<dots> = [y ! 0, M (y ! 0)]" by (simp only: eq)
    also have "\<dots> = y" using row y by (simp only:)
    finally show "x = y" .
  qed
  then show "distinct (map (\<lambda>r. r ! 0) S)" using dS by (simp add: distinct_map)
  show "set (map (\<lambda>r. r ! 0) S) = set ks" using setS by (auto simp: image_image)
  have "map cell_key (map M (map (\<lambda>r. r ! 0) S)) = map (\<lambda>r. cell_key (r ! Suc 0)) S"
    using snd by (simp add: o_def)
  also have "rev \<dots> = map (\<lambda>r. cell_key (r ! Suc 0))
      (sort_key (\<lambda>r. cell_key (r ! Suc 0)) (rev (map (\<lambda>a. [a, M a]) ks)))"
    by (simp add: S_def rev_map)
  finally show "sorted (rev (map cell_key (map M (map (\<lambda>r. r ! 0) S))))"
    by (simp only: sorted_sort_key)
qed


lemma map_Num_ex:
  assumes "\<forall>x \<in> set xs. \<exists>q. f x = Num q"
  shows "\<exists>ms. map f xs = map Num ms"
proof -
  have "numeric_col (map f xs)" "Missing \<notin> set (map f xs)"
    using assms by (auto simp: numeric_col_def)
  then show ?thesis by (rule numeric_present_Num)
qed

lemma columns_sort_values_desc: "columns (sort_values_desc out t) = columns t"
  by (simp add: sort_values_desc_def Let_def)

lemma mean_by_area_rows:
  assumes "level \<in> set (columns t)" and "metric \<in> set (columns t)"
    and "level \<noteq> metric" and "out \<noteq> level" and "numeric_col (get_col metric t)"
  shows "\<exists>areas ms.
     distinct areas \<and> set areas = fst ` set (complete_pairs level metric t) \<and>
     mean_by_area level metric out t =
       Inr \<lparr>columns = [level, out],
            rows = map (\<lambda>a. [a, mean_cell (map snd (filter (\<lambda>p. fst p = a)
                     (complete_pairs level metric t)))]) areas\<rparr> \<and>
     map (\<lambda>a. mean_cell (map snd (filter (\<lambda>p. fst p = a)
            (complete_pairs level metric t)))) areas = map Num ms \<and>
     sorted_wrt (\<lambda>a b. b \<le> a) ms"
proof -
  define P where "P = complete_pairs level metric t"
  define D where "D = \<lparr>columns = [level, metric], rows = map (\<lambda>p. [fst p, snd p]) P\<rparr>"
  define M where "M = (\<lambda>a. mean_cell (map snd (filter (\<lambda>p. fst p = a) P)))"
  define ks where "ks = group_keys level D"
  define S where
    "S = rev (sort_key (\<lambda>r. cell_key (r ! Suc 0)) (rev (map (\<lambda>a. [a, M a]) ks)))"
  define areas where "areas = map (\<lambda>r. r ! 0) S"
  obtain picked where picked: "select_cols [level, metric] t = Inr picked" "dropna picked = D"
    using dropna_select_cols [OF assms(1,2)] unfolding D_def P_def by blast
  have gl: "get_col level D = map fst P" by (simp add: D_def get_col_def o_def)
  have gm: "get_col metric D = map snd P" using assms(3) by (simp add: D_def get_col_def o_def)
  have sub: "set (map snd P) \<subseteq> set (get_col metric t)"
    by (auto simp: P_def complete_pairs_def dest: set_zip_rightD)
  have nP: "numeric_col (map snd P)"
    using assms(5) sub unfolding numeric_col_def by blast
  have present: "\<forall>p \<in> set P. fst p \<noteq> Missing \<and> snd p \<noteq> Missing"
    by (simp add: P_def complete_pairs_def)
  have grouped: "groupby_mean level metric out D
      = Inr \<lparr>columns = [level, out], rows = map (\<lambda>a. [a, M a]) ks\<rparr>"
    using groupby_mean_rows [of metric D level out] nP
    by (simp add: gl gm zip_map_fst_snd M_def ks_def)
  have dks: "distinct ks" by (simp add: ks_def group_keys_facts)
  have sks: "set ks = fst ` set P"
    using present by (auto simp: ks_def group_keys_facts gl)
  have num: "\<exists>q. M a = Num q" if "a \<in> set ks" for a
  proof -
    let ?vs = "map snd (filter (\<lambda>p. fst p = a) P)"
    have ne: "?vs \<noteq> []" using that sks by (auto simp: filter_empty_conv)
    have "numeric_col ?vs" using nP unfolding numeric_col_def by auto
    moreover have "Missing \<notin> set ?vs" using present by auto
    ultimately obtain qs where qs: "?vs = map Num qs" using numeric_present_Num by blast
    then have "qs \<noteq> []" using ne by auto
    then show ?thesis unfolding M_def qs using mean_cell_Num by blast
  qed
  then have nm: "\<forall>a \<in> set ks. M a \<noteq> Missing" by fastforce
  have sorted_rows: "sort_values_desc out \<lparr>columns = [level, out], rows = map (\<lambda>a. [a, M a]) ks\<rparr>
      = \<lparr>columns = [level, out], rows = S\<rparr>"
    using sort_values_desc_rows [OF assms(4) nm]
      columns_sort_values_desc [of out "\<lparr>columns = [level, out], rows = map (\<lambda>a. [a, M a]) ks\<rparr>"]
    by (simp add: S_def)
  note shape = sorted_rows_shape [OF dks, of M, folded S_def, folded areas_def]
  have res: "mean_by_area level metric out t
      = Inr \<lparr>columns = [level, out], rows = map (\<lambda>a. [a, M a]) areas\<rparr>"
    using shape(1) by (simp add: mean_by_area_def picked grouped sorted_rows)
  have "\<forall>a \<in> set areas. \<exists>q. M a = Num q" using num shape(3) by simp
  then obtain ms where ms: "map M areas = map Num ms" using map_Num_ex by blast
  have "sorted_wrt (\<lambda>a b. b \<le> a) ms"
    using shape(4) unfolding ms by (rule sorted_desc_Num)
  then have "distinct areas \<and> set areas = fst ` set P \<and>
      mean_by_area level metric out t
        = Inr \<lparr>columns = [level, out], rows = map (\<lambda>a. [a, M a]) areas\<rparr> \<and>
      map M areas = map Num ms \<and> sorted_wrt (\<lambda>a b. b \<le> a) ms"
    using shape(2,3) sks res ms by simp
  then show ?thesis unfolding M_def P_def by blast
qed

text \<open>
  C5, as the code has it. For a level among \<^verbatim>\<open>district\<close> and \<^verbatim>\<open>neighbourhood\<close>:
  \<open>price_by_area\<close> returns the empty frame when the level column is absent. When the
  level column and a numeric \<^verbatim>\<open>precio_noche\<close> column are present, it returns the columns
  of the level and \<^verbatim>\<open>precio_medio\<close> with one row for each area that has a row in which
  neither the area nor the price is missing, each such area once, with the mean of the
  prices of those rows, the means in descending order.
\<close>

theorem price_by_area_ranking:
  "level \<in> {''district'', ''neighbourhood''} \<Longrightarrow>
     (level \<notin> set (columns t) \<longrightarrow> price_by_area t level = Inr empty_frame) \<and>
     (level \<in> set (columns t) \<and> ''precio_noche'' \<in> set (columns t) \<and>
      numeric_col (get_col ''precio_noche'' t) \<longrightarrow>
        (\<exists>areas ms.
           distinct areas \<and> set areas = fst ` set (complete_pairs level ''precio_noche'' t) \<and>
           price_by_area t level =
             Inr \<lparr>columns = [level, ''precio_medio''],
                  rows = map (\<lambda>a. [a, mean_cell (map snd (filter (\<lambda>p. fst p = a)
                           (complete_pairs level ''precio_noche'' t)))]) areas\<rparr> \<and>
           map (\<lambda>a. mean_cell (map snd (filter (\<lambda>p. fst p = a)
                  (complete_pairs level ''precio_noche'' t)))) areas = map Num ms \<and>
           sorted_wrt (\<lambda>a b. b \<le> a) ms))"
proof -
  assume lv: "level \<in> {''district'', ''neighbourhood''}"
  then have ne: "level \<noteq> ''precio_noche''" "''precio_medio'' \<noteq> level" by auto
  have absent: "level \<notin> set (columns t) \<longrightarrow> price_by_area t level = Inr empty_frame"
    using lv by (simp add: price_by_area_def)
  have present: "\<exists>areas ms.
      distinct areas \<and> set areas = fst ` set (complete_pairs level ''precio_noche'' t) \<and>
      price_by_area t level =
        Inr \<lparr>columns = [level, ''precio_medio''],
             rows = map (\<lambda>a. [a, mean_cell (map snd (filter (\<lambda>p. fst p = a)
                      (complete_pairs level ''precio_noche'' t)))]) areas\<rparr> \<and>
      map (\<lambda>a. mean_cell (map snd (filter (\<lambda>p. fst p = a)
             (complete_pairs level ''precio_noche'' t)))) areas = map Num ms \<and>
      sorted_wrt (\<lambda>a b. b \<le> a) ms"
    if "level \<in> set (columns t)" "''precio_noche'' \<in> set (columns t)"
      "numeric_col (get_col ''precio_noche'' t)"
  proof -
    have "price_by_area t level = mean_by_area level ''precio_noche'' ''precio_medio'' t"
      using lv that(1) by (simp add: price_by_area_def)
    then show ?thesis
      using mean_by_area_rows [OF that(1,2) ne that(3)] by simp
  qed
  show ?thesis
  proof (intro conjI impI)
    show "price_by_area t level = Inr empty_frame" if "level \<notin> set (columns t)"
      using absent that by simp
  next
    assume "level \<in> set (columns t) \<and> ''precio_noche'' \<in> set (columns t) \<and>
      numeric_col (get_col ''precio_noche'' t)"
    then show "\<exists>areas ms.
      distinct areas \<and> set areas = fst ` set (complete_pairs level ''precio_noche'' t) \<and>
      price_by_area t level =
        Inr \<lparr>columns = [level, ''precio_medio''],
             rows = map (\<lambda>a. [a, mean_cell (map snd (filter (\<lambda>p. fst p = a)
                      (complete_pairs level ''precio_noche'' t)))]) areas\<rparr> \<and>
      map (\<lambda>a. mean_cell (map snd (filter (\<lambda>p. fst p = a)
             (complete_pairs level ''precio_noche'' t)))) areas = map Num ms \<and>
      sorted_wrt (\<lambda>a b. b \<le> a) ms"
      using present by (elim conjE)
  qed
qed

theorem price_by_area_ranking_witness:
  "''district'' \<in> {''district'', ''neighbourhood''} \<and>
   numeric_col (get_col ''precio_noche'' \<lparr>columns = [''district'', ''precio_noche''],
       rows = [[Str ''A'', Num 10], [Str ''C'', Num 30], [Str ''A'', Num 40], [Missing, Num 3]]\<rparr>) \<and>
   (\<exists>areas ms. distinct areas \<and> set areas = {Str ''A'', Str ''C''} \<and>
      price_by_area \<lparr>columns = [''district'', ''precio_noche''],
          rows = [[Str ''A'', Num 10], [Str ''C'', Num 30], [Str ''A'', Num 40], [Missing, Num 3]]\<rparr>
        ''district''
        = Inr \<lparr>columns = [''district'', ''precio_medio''],
               rows = map (\<lambda>a. [a, if a = Str ''A'' then Num 25 else Num 30]) areas\<rparr> \<and>
      map (\<lambda>a. if a = Str ''A'' then Num 25 else Num 30) areas = map Num ms \<and>
      sorted_wrt (\<lambda>a b. b \<le> a) ms)"
proof -
  let ?t = "\<lparr>columns = [''district'', ''precio_noche''],
       rows = [[Str ''A'', Num 10], [Str ''C'', Num 30], [Str ''A'', Num 40], [Missing, Num 3]]\<rparr>"
  let ?M = "\<lambda>a. mean_cell (map snd (filter (\<lambda>p. fst p = a)
      (complete_pairs ''district'' ''precio_noche'' ?t)))"
  have lv: "''district'' \<in> {''district'', ''neighbourhood''}" by simp
  have gp: "get_col ''precio_noche'' ?t = [Num 10, Num 30, Num 40, Num 3]"
    by (simp add: get_col_def)
  have n: "numeric_col (get_col ''precio_noche'' ?t)"
    unfolding gp by (simp add: numeric_col_def)
  have cp: "complete_pairs ''district'' ''precio_noche'' ?t
      = [(Str ''A'', Num 10), (Str ''C'', Num 30), (Str ''A'', Num 40)]"
    by (simp add: complete_pairs_def get_col_def)
  obtain areas ms where a: "distinct areas" "set areas = {Str ''A'', Str ''C''}"
    "price_by_area ?t ''district''
       = Inr \<lparr>columns = [''district'', ''precio_medio''], rows = map (\<lambda>a. [a, ?M a]) areas\<rparr>"
    "map ?M areas = map Num ms" "sorted_wrt (\<lambda>a b. b \<le> a) ms"
    using price_by_area_ranking [OF lv, of ?t] n unfolding cp by auto
  have m: "\<forall>a \<in> set areas. ?M a = (if a = Str ''A'' then Num 25 else Num 30)"
    unfolding cp a(2) by (simp add: mean_cell_def)
  have "distinct areas \<and> set areas = {Str ''A'', Str ''C''} \<and>
      price_by_area ?t ''district''
        = Inr \<lparr>columns = [''district'', ''precio_medio''],
               rows = map (\<lambda>a. [a, if a = Str ''A'' then Num 25 else Num 30]) areas\<rparr> \<and>
      map (\<lambda>a. if a = Str ''A'' then Num 25 else Num 30) areas = map Num ms \<and>
      sorted_wrt (\<lambda>a b. b \<le> a) ms"
  proof -
    have e1: "map (\<lambda>a. [a, ?M a]) areas
        = map (\<lambda>a. [a, if a = Str ''A'' then Num 25 else Num 30]) areas"
      using m by (intro map_cong refl) simp
    have e2: "map ?M areas = map (\<lambda>a. if a = Str ''A'' then Num 25 else Num 30) areas"
      using m by (intro map_cong refl) simp
    show ?thesis using a(1,2,5) a(3) [unfolded e1] a(4) [unfolded e2] by (intro conjI)
  qed
  then have "\<exists>areas ms. distinct areas \<and> set areas = {Str ''A'', Str ''C''} \<and>
      price_by_area ?t ''district''
        = Inr \<lparr>columns = [''district'', ''precio_medio''],
               rows = map (\<lambda>a. [a, if a = Str ''A'' then Num 25 else Num 30]) areas\<rparr> \<and>
      map (\<lambda>a. if a = Str ''A'' then Num 25 else Num 30) areas = map Num ms \<and>
      sorted_wrt (\<lambda>a b. b \<le> a) ms"
    by blast
  then show ?thesis using lv n by (intro conjI)
qed

text \<open>
  C5 as the claim words it asks for one row per distinct area value of the frame. An
  area all of whose rows lack the price has no row in the result: the rows with a missing
  value are dropped before the grouping. Here \<^verbatim>\<open>B\<close> is an area of the frame and the result
  has the single row of \<^verbatim>\<open>A\<close>.
\<close>

theorem price_by_area_omits_area_without_price:
  "Str ''B'' \<in> set (get_col ''district'' \<lparr>columns = [''district'', ''precio_noche''],
       rows = [[Str ''A'', Num 10], [Str ''B'', Missing]]\<rparr>) \<and>
   price_by_area \<lparr>columns = [''district'', ''precio_noche''],
       rows = [[Str ''A'', Num 10], [Str ''B'', Missing]]\<rparr> ''district''
     = Inr \<lparr>columns = [''district'', ''precio_medio''], rows = [[Str ''A'', Num 10]]\<rparr>"
  by (simp add: price_by_area_def mean_by_area_def select_cols_def dropna_def groupby_mean_def
      get_col_def numeric_col_def mean_cell_def sort_values_desc_def)

section \<open>The unifier\<close>



lemma take_prefix_trans:
  assumes "take (length b) c = b" and "take (length a) b = a"
  shows "take (length a) c = a"
proof -
  have "length (take (length a) b) = length a" using assms(2) by simp
  then have "length a \<le> length b" by simp
  then have "take (length a) c = take (length a) (take (length b) c)"
    by (simp add: min_def)
  then show ?thesis using assms by simp
qed

lemma join_row_extends: "\<exists>row' \<in> set (join_row rr li ri w rc l). take (length l) row' = l"
  by (cases "filter (\<lambda>r. r ! ri = l ! li) rr") (auto simp: join_row_def)

lemma join_row_nonempty: "1 \<le> length (join_row rr li ri w rc l)"
  by (cases "filter (\<lambda>r. r ! ri = l ! li) rr") (auto simp: join_row_def)

lemma merge_left_rows:
  assumes "merge_left left right lk rk sfx = Inr out"
  shows "\<exists>li ri w rc. rows out = concat (map (join_row (rows right) li ri w rc) (rows left))"
proof -
  have "rows out = concat (map (join_row (rows right) (index_of lk (columns left))
      (index_of rk (columns right))
      (length (if lk = rk then drop_nth (index_of rk (columns right)) (columns right)
               else columns right))
      (\<lambda>r. if lk = rk then drop_nth (index_of rk (columns right)) r else r)) (rows left))"
    using assms unfolding merge_left_def Let_def by (auto split: if_splits)
  then show ?thesis by blast
qed

lemma merge_left_keeps_rows:
  assumes "merge_left left right lk rk sfx = Inr out"
  shows "\<forall>row \<in> set (rows left). \<exists>row' \<in> set (rows out). take (length row) row' = row"
proof -
  obtain li ri w rc where
    out: "rows out = concat (map (join_row (rows right) li ri w rc) (rows left))"
    using merge_left_rows [OF assms] by blast
  show ?thesis unfolding out using join_row_extends by fastforce
qed

lemma merge_left_length_rows:
  assumes "merge_left left right lk rk sfx = Inr out"
  shows "length (rows left) \<le> length (rows out)"
proof -
  obtain li ri w rc where
    out: "rows out = concat (map (join_row (rows right) li ri w rc) (rows left))"
    using merge_left_rows [OF assms] by blast
  have "length xs \<le> length (concat (map (join_row (rows right) li ri w rc) xs))" for xs
  proof (induction xs)
    case Nil
    then show ?case by simp
  next
    case (Cons x xs)
    then show ?case using join_row_nonempty [of "rows right" li ri w rc x] by simp
  qed
  then show ?thesis unfolding out .
qed

lemma rows_normalize_neighbourhoods:
  "rows (fst (normalize_neighbourhoods l n)) = rows l"
  by (simp add: normalize_neighbourhoods_def Let_def rename_col_def)

text \<open>One optional left join: the frame itself, or its merge.\<close>

lemma optional_merge_keeps_rows:
  assumes "(if b then merge_left left right lk rk sfx else Inr left) = Inr out"
  shows "(\<forall>row \<in> set (rows left). \<exists>row' \<in> set (rows out). take (length row) row' = row) \<and>
         length (rows left) \<le> length (rows out)"
proof (cases b)
  case True
  then show ?thesis
    using assms merge_left_keeps_rows merge_left_length_rows by simp
next
  case False
  then have "out = left" using assms by simp
  moreover have "\<exists>row' \<in> set (rows left). take (length row) row' = row"
    if "row \<in> set (rows left)" for row
    using that by (intro bexI [of _ row]) simp_all
  ultimately show ?thesis by simp
qed

text \<open>
  C1. Whenever \<open>unify_data\<close> returns a frame, every row of the listings is the beginning
  of a row of the result: its cells stand in the same positions with the same values, and
  what the two left joins add comes after them. The result has at least as many rows as
  the listings. The three other frames are arbitrary. (The function returns unless the
  library refuses the mean of the ratings or a merge key.)
\<close>

theorem unify_data_keeps_listings:
  "unify_data listings reviews neighbourhoods idealista = Inr out \<Longrightarrow>
     (\<forall>row \<in> set (rows listings). \<exists>row' \<in> set (rows out). take (length row) row' = row) \<and>
     length (rows listings) \<le> length (rows out)"
proof -
  assume u: "unify_data listings reviews neighbourhoods idealista = Inr out"
  define ln where "ln = fst (normalize_neighbourhoods listings neighbourhoods)"
  define nn where "nn = snd (normalize_neighbourhoods listings neighbourhoods)"
  define second where "second = (\<lambda>wr.
      if ''neighbourhood'' \<in> set (columns wr) \<and> ''neighbourhood'' \<in> set (columns nn)
      then merge_left wr nn ''neighbourhood'' ''neighbourhood'' ([], ''_ref'')
      else Inr wr)"
  define first where "first = (\<lambda>rs.
      if \<not> frame_empty rs \<and> ''id'' \<in> set (columns ln)
      then merge_left ln rs ''id'' ''listing_id'' (''_x'', ''_y'') else Inr ln)"
  have rl: "rows ln = rows listings" by (simp add: ln_def rows_normalize_neighbourhoods)
  have u': "(case prepare_reviews reviews of
        Inl e \<Rightarrow> Inl e
      | Inr rs \<Rightarrow> (case first rs of Inl e \<Rightarrow> Inl e | Inr wr \<Rightarrow> second wr)) = Inr out"
    using u
    unfolding unify_data_def ln_def nn_def first_def second_def case_prod_unfold Let_def
    by simp
  obtain rs where rs: "prepare_reviews reviews = Inr rs"
    using u' by (cases "prepare_reviews reviews") simp_all
  have u'': "(case first rs of Inl e \<Rightarrow> Inl e | Inr wr \<Rightarrow> second wr) = Inr out"
    using u' by (simp add: rs)
  obtain wr where wr: "first rs = Inr wr"
    using u'' by (cases "first rs") simp_all
  have two: "second wr = Inr out"
    using u'' by (simp add: wr)
  note k1 = optional_merge_keeps_rows [OF wr [unfolded first_def], unfolded rl]
  note k2 = optional_merge_keeps_rows [OF two [unfolded second_def]]
  have "\<exists>row' \<in> set (rows out). take (length row) row' = row"
    if "row \<in> set (rows listings)" for row
  proof -
    have "\<exists>mid \<in> set (rows wr). take (length row) mid = row"
      using k1 [THEN conjunct1, rule_format, OF that] .
    then obtain mid where mid: "mid \<in> set (rows wr)" "take (length row) mid = row"
      by (rule bexE)
    have "\<exists>row' \<in> set (rows out). take (length mid) row' = mid"
      using k2 [THEN conjunct1, rule_format, OF mid(1)] .
    then obtain row' where row': "row' \<in> set (rows out)" "take (length mid) row' = mid"
      by (rule bexE)
    have "take (length row) row' = row" using row'(2) mid(2) by (rule take_prefix_trans)
    with row'(1) show ?thesis by (rule bexI [rotated])
  qed
  then have keep: "\<forall>row \<in> set (rows listings). \<exists>row' \<in> set (rows out).
      take (length row) row' = row"
    by (rule ballI)
  have "length (rows listings) \<le> length (rows out)"
    using k1 [THEN conjunct2] k2 [THEN conjunct2] by (rule order_trans)
  with keep show ?thesis by (rule conjI)
qed


theorem unify_data_keeps_listings_witness:
  "unify_data
     \<lparr>columns = [''id'', ''neighbourhood_cleansed''],
        rows = [[Num 1, Str ''Centro''], [Num 2, Str ''Sol'']]\<rparr>
     \<lparr>columns = [''listing_id'', ''rating''],
        rows = [[Num 1, Num 4], [Num 1, Num 5], [Num 3, Num 3]]\<rparr>
     \<lparr>columns = [''neighbourhood_group'', ''neighbourhood''],
        rows = [[Str ''Distrito Centro'', Str ''Centro'']]\<rparr>
     empty_frame
   = Inr \<lparr>columns = [''id'', ''neighbourhood'', ''listing_id'', ''rating'', ''district''],
          rows = [[Num 1, Str ''Centro'', Num 1, Num (9 / 2), Str ''Distrito Centro''],
                  [Num 2, Str ''Sol'', Missing, Missing, Missing]]\<rparr> \<and>
   (\<exists>row' \<in> set (rows \<lparr>columns = [''id'', ''neighbourhood'', ''listing_id'', ''rating'',
                                  ''district''],
          rows = [[Num 1, Str ''Centro'', Num 1, Num (9 / 2), Str ''Distrito Centro''],
                  [Num 2, Str ''Sol'', Missing, Missing, Missing]]\<rparr>).
      take (length [Num 2, Str ''Sol'']) row' = [Num 2, Str ''Sol''])"
proof -
  let ?listings = "\<lparr>columns = [''id'', ''neighbourhood_cleansed''],
        rows = [[Num 1, Str ''Centro''], [Num 2, Str ''Sol'']]\<rparr>"
  have e: "unify_data ?listings
     \<lparr>columns = [''listing_id'', ''rating''],
        rows = [[Num 1, Num 4], [Num 1, Num 5], [Num 3, Num 3]]\<rparr>
     \<lparr>columns = [''neighbourhood_group'', ''neighbourhood''],
        rows = [[Str ''Distrito Centro'', Str ''Centro'']]\<rparr>
     empty_frame
   = Inr \<lparr>columns = [''id'', ''neighbourhood'', ''listing_id'', ''rating'', ''district''],
          rows = [[Num 1, Str ''Centro'', Num 1, Num (9 / 2), Str ''Distrito Centro''],
                  [Num 2, Str ''Sol'', Missing, Missing, Missing]]\<rparr>"
    by (simp add: unify_data_def normalize_neighbourhoods_def rename_col_def
        prepare_reviews_def groupby_mean_def get_col_def numeric_col_def mean_cell_def
        frame_empty_def merge_left_def join_row_def drop_nth_def text_only_def
        number_only_def is_object_def)
  have r: "[Num 2, Str ''Sol''] \<in> set (rows ?listings)" by simp
  from e unify_data_keeps_listings [OF e, THEN conjunct1, rule_format, OF r]
  show ?thesis by (rule conjI)
qed

section \<open>The input frame is left alone\<close>

text \<open>A stage keeps the store it was given and returns a new frame holding \<open>t\<close>.\<close>

lemma fold_on_one_frame:
  assumes "r < length h" and "\<And>c h'. r < length h' \<Longrightarrow> G c h' = h'[r := g c (h' ! r)]"
  shows "fold G cs h = h[r := fold g cs (h ! r)]"
  using assms(1)
proof (induction cs arbitrary: h)
  case Nil
  then show ?case by simp
next
  case (Cons c cs)
  have "G c h = h[r := g c (h ! r)]" using assms(2) Cons.prems by simp
  moreover have "fold G cs (h[r := g c (h ! r)])
      = (h[r := g c (h ! r)])[r := fold g cs ((h[r := g c (h ! r)]) ! r)]"
    using Cons.IH [of "h[r := g c (h ! r)]"] Cons.prems by simp
  ultimately show ?case using Cons.prems by simp
qed

lemma standardize_step_st_eq:
  "r < length h \<Longrightarrow> standardize_step_st r c h = h[r := standardize_step c (h ! r)]"
  by (simp add: standardize_step_st_def standardize_step_def standardize_column_def
      assign_col_def Let_def)

lemma normalize_column_st_eq:
  "r < length h \<Longrightarrow> normalize_column_st dp r c h = h[r := normalize_column dp c (h ! r)]"
  by (simp add: normalize_column_st_def normalize_column_def assign_col_def Let_def)

lemma standardize_prices_st_eq:
  "df < length h \<Longrightarrow>
     standardize_prices_st h df pc = (h @ [standardize_prices (h ! df) pc], length h)"
proof -
  assume df: "df < length h"
  have "fold (standardize_step_st (length h)) (candidate_columns pc) (h @ [h ! df])
      = (h @ [h ! df])[length h := fold standardize_step (candidate_columns pc)
          ((h @ [h ! df]) ! length h)]"
    by (rule fold_on_one_frame) (simp_all add: standardize_step_st_eq)
  then show ?thesis
    by (simp add: standardize_prices_st_def copy_frame_def standardize_prices_def)
qed

lemma normalize_types_st_eq:
  "df < length h \<Longrightarrow>
     normalize_types_st dp h df = (h @ [normalize_types dp (h ! df)], length h)"
proof -
  assume df: "df < length h"
  have "fold (normalize_column_st dp (length h)) (columns (h ! df)) (h @ [h ! df])
      = (h @ [h ! df])[length h := fold (normalize_column dp) (columns (h ! df))
          ((h @ [h ! df]) ! length h)]"
    by (rule fold_on_one_frame) (simp_all add: normalize_column_st_eq)
  then show ?thesis
    by (simp add: normalize_types_st_def copy_frame_def normalize_types_def)
qed

lemma add_basic_columns_st_eq:
  "df < length h \<Longrightarrow>
     add_basic_columns_st h df = (h @ [add_basic_columns (h ! df)], length h)"
  by (simp add: add_basic_columns_st_def copy_frame_def add_basic_columns_def
      with_precio_noche_def assign_col_def Let_def)

lemma clean_dataset_st_eq:
  "df < length h \<Longrightarrow>
     clean_dataset_st dp h df =
       (h @ [standardize_prices (h ! df) None,
             normalize_types dp (standardize_prices (h ! df) None),
             add_basic_columns (normalize_types dp (standardize_prices (h ! df) None)),
             clean_dataset dp (h ! df)],
        length h + 3)"
  by (simp add: clean_dataset_st_def standardize_prices_st_eq normalize_types_st_eq
      add_basic_columns_st_eq new_frame_def clean_dataset_def nth_append)

text \<open>
  C9. Let \<open>df\<close> be the address of a frame of the store. Each of \<open>standardize_prices\<close>,
  \<open>normalize_types\<close>, \<open>add_basic_columns\<close> and \<open>clean_dataset\<close> leaves every frame that
  was in the store as it was, the frame at \<open>df\<close> among them, and returns the address of a
  frame that was not in the store before; that frame is the value of the function of the
  same name on tables.
\<close>

theorem cleaning_stages_leave_input:
  "df < length h \<Longrightarrow>
     (take (length h) (fst (standardize_prices_st h df pc)) = h \<and>
      fst (standardize_prices_st h df pc) ! df = h ! df \<and>
      length h \<le> snd (standardize_prices_st h df pc) \<and>
      fst (standardize_prices_st h df pc) ! snd (standardize_prices_st h df pc)
        = standardize_prices (h ! df) pc) \<and>
     (take (length h) (fst (normalize_types_st dp h df)) = h \<and>
      fst (normalize_types_st dp h df) ! df = h ! df \<and>
      length h \<le> snd (normalize_types_st dp h df) \<and>
      fst (normalize_types_st dp h df) ! snd (normalize_types_st dp h df)
        = normalize_types dp (h ! df)) \<and>
     (take (length h) (fst (add_basic_columns_st h df)) = h \<and>
      fst (add_basic_columns_st h df) ! df = h ! df \<and>
      length h \<le> snd (add_basic_columns_st h df) \<and>
      fst (add_basic_columns_st h df) ! snd (add_basic_columns_st h df)
        = add_basic_columns (h ! df)) \<and>
     (take (length h) (fst (clean_dataset_st dp h df)) = h \<and>
      fst (clean_dataset_st dp h df) ! df = h ! df \<and>
      length h \<le> snd (clean_dataset_st dp h df) \<and>
      fst (clean_dataset_st dp h df) ! snd (clean_dataset_st dp h df)
        = clean_dataset dp (h ! df))"
proof -
  assume df: "df < length h"
  have a: "take (length h) (fst (standardize_prices_st h df pc)) = h \<and>
      fst (standardize_prices_st h df pc) ! df = h ! df \<and>
      length h \<le> snd (standardize_prices_st h df pc) \<and>
      fst (standardize_prices_st h df pc) ! snd (standardize_prices_st h df pc)
        = standardize_prices (h ! df) pc"
    using df by (simp add: standardize_prices_st_eq nth_append)
  have b: "take (length h) (fst (normalize_types_st dp h df)) = h \<and>
      fst (normalize_types_st dp h df) ! df = h ! df \<and>
      length h \<le> snd (normalize_types_st dp h df) \<and>
      fst (normalize_types_st dp h df) ! snd (normalize_types_st dp h df)
        = normalize_types dp (h ! df)"
    using df by (simp add: normalize_types_st_eq nth_append)
  have c: "take (length h) (fst (add_basic_columns_st h df)) = h \<and>
      fst (add_basic_columns_st h df) ! df = h ! df \<and>
      length h \<le> snd (add_basic_columns_st h df) \<and>
      fst (add_basic_columns_st h df) ! snd (add_basic_columns_st h df)
        = add_basic_columns (h ! df)"
    using df by (simp add: add_basic_columns_st_eq nth_append)
  have d: "take (length h) (fst (clean_dataset_st dp h df)) = h \<and>
      fst (clean_dataset_st dp h df) ! df = h ! df \<and>
      length h \<le> snd (clean_dataset_st dp h df) \<and>
      fst (clean_dataset_st dp h df) ! snd (clean_dataset_st dp h df)
        = clean_dataset dp (h ! df)"
    using df by (simp add: clean_dataset_st_eq nth_append)
  from a b c d show ?thesis by (intro conjI) (elim conjE, assumption)+
qed

theorem cleaning_stages_leave_input_witness:
  "(0 :: nat) < length [\<lparr>columns = [''id'', ''price''], rows = [[Num 1, Str ''$90'']]\<rparr>] \<and>
   fst (standardize_prices_st
          [\<lparr>columns = [''id'', ''price''], rows = [[Num 1, Str ''$90'']]\<rparr>] 0 None) ! 0
     = \<lparr>columns = [''id'', ''price''], rows = [[Num 1, Str ''$90'']]\<rparr> \<and>
   fst (clean_dataset_st (\<lambda>col s. None)
          [\<lparr>columns = [''id'', ''price''], rows = [[Num 1, Str ''$90'']]\<rparr>] 0) ! 0
     = \<lparr>columns = [''id'', ''price''], rows = [[Num 1, Str ''$90'']]\<rparr>"
proof -
  let ?h = "[\<lparr>columns = [''id'', ''price''], rows = [[Num 1, Str ''$90'']]\<rparr>]"
  have l: "(0 :: nat) < length ?h" by simp
  note t = cleaning_stages_leave_input [OF l, of None "\<lambda>col s. None"]
  have "fst (standardize_prices_st ?h 0 None) ! 0 = ?h ! 0"
    using t by (elim conjE)
  moreover have "fst (clean_dataset_st (\<lambda>col s. None) ?h 0) ! 0 = ?h ! 0"
    using t by (elim conjE)
  ultimately show ?thesis using l by simp
qed

section \<open>The aggregators and their level\<close>

text \<open>
  C6. For every frame and every level other than \<^verbatim>\<open>district\<close> and \<^verbatim>\<open>neighbourhood\<close>,
  \<open>price_by_area\<close> and \<open>occupancy_by_area\<close> raise the \<^verbatim>\<open>ValueError\<close> of the level.
  The frame is arbitrary, ill-formed ones included: the test comes before any access to it.
\<close>

theorem unsupported_level_raises:
  "level \<notin> {''district'', ''neighbourhood''} \<Longrightarrow>
     price_by_area df level = Inl (ValueError level_message) \<and>
     occupancy_by_area df level = Inl (ValueError level_message)"
  by (simp add: price_by_area_def occupancy_by_area_def)

theorem unsupported_level_raises_witness:
  "''city'' \<notin> {''district'', ''neighbourhood''} \<and>
   price_by_area \<lparr>columns = [''district'', ''precio_noche''],
                    rows = [[Str ''Centro'', Num 80]]\<rparr> ''city''
     = Inl (ValueError level_message) \<and>
   occupancy_by_area \<lparr>columns = [''district'', ''precio_noche''],
                        rows = [[Str ''Centro'', Num 80]]\<rparr> ''city''
     = Inl (ValueError level_message)"
  using unsupported_level_raises [of "''city''"
      "\<lparr>columns = [''district'', ''precio_noche''], rows = [[Str ''Centro'', Num 80]]\<rparr>"]
  by simp

text \<open>
  C2. The claim is that the aggregators never raise for an absent column. They do: on a
  frame that has the level column \<^verbatim>\<open>district\<close> but not the metric column, the selection
  \<^verbatim>\<open>df[[level, metric]]\<close> raises a \<^verbatim>\<open>KeyError\<close>. Only the level column is tested.
\<close>

theorem aggregators_raise_without_metric:
  "price_by_area \<lparr>columns = [''district''], rows = [[Str ''Centro'']]\<rparr> ''district''
     = Inl (KeyError ''precio_noche'') \<and>
   occupancy_by_area \<lparr>columns = [''district''], rows = [[Str ''Centro'']]\<rparr> ''district''
     = Inl (KeyError ''ocupacion_estimada'')"
  by (simp add: price_by_area_def occupancy_by_area_def mean_by_area_def select_cols_def)

end
